theory Spec2Isabelle
  imports Complex_Main
begin

section \<open>Data model of the timeline scroll hook\<close>

text \<open>
  The development embeds \<^verbatim>\<open>src/useTimelineScroll.ts\<close>.  JavaScript numbers are taken as
  real numbers (pixel offsets, no rounding).  A \<^verbatim>\<open>Date\<close> holds a time value in
  milliseconds since the epoch, or NaN for an invalid date.  DOM elements are named by a
  natural number; the document maps each name to the properties the hook reads and writes.
\<close>

datatype date = Date int | InvalidDate

record 'id TimelineTask =
  task_id :: 'id
  title :: string
  task_start :: "date option"
  task_end :: "date option"
  baseIndex :: real
  isSentinel :: "bool option"

record TimelineViewport =
  vp_start :: date
  vp_end :: date
  pxPerDay :: "real option"

record ScrollState =
  scroller :: nat
  currentScrollLeft :: real
  prevScrollLeft :: real

text \<open>The event handed to \<^verbatim>\<open>onScrollLeft\<close>: the native scroll event, or the object built by
  \<^verbatim>\<open>createSyntheticScrollEvent\<close>; both carry their \<^verbatim>\<open>currentTarget\<close>.\<close>

datatype event = NativeEvent (currentTarget: nat) | SyntheticEvent (currentTarget: nat)

text \<open>Host callbacks.  \<open>OnScrollLeft\<close> carries \<^verbatim>\<open>currentScrollLeft\<close>, \<^verbatim>\<open>prevScrollLeft\<close>,
  \<^verbatim>\<open>scrollDelta\<close>, \<^verbatim>\<open>scroller\<close> and \<^verbatim>\<open>event\<close>.  The log records each call site
  \<^verbatim>\<open>cb?.(...)\<close> that is reached; the host's function runs there when it was supplied.\<close>

datatype callback =
    OnScrollLeft real real real nat event
  | OnReachStart
  | OnReachEnd
  | OnStopScrollingLeft

text \<open>Scroll writes to the document: assignments to \<^verbatim>\<open>scrollTop\<close> and \<^verbatim>\<open>scrollLeft\<close>, and
  \<^verbatim>\<open>scrollTo({left, behavior: 'smooth'})\<close> requests (\<open>None\<close> stands for a NaN offset).\<close>

datatype dom_write =
    SetScrollTop nat real
  | SetScrollLeft nat real
  | ScrollTo nat "real option"

record element =
  scrollLeft :: real
  scrollTop :: real
  scrollWidth :: real
  clientWidth :: real
  scrollHeight :: real
  clientHeight :: real
  cursor :: string

text \<open>The variables closed over by the listeners of one \<^verbatim>\<open>handlePointerDown\<close> call.\<close>

record drag =
  startX :: real
  startScrollLeft :: real
  panning :: bool
  drag_scroller :: nat
  drag_el :: nat
  prevCursor :: string

datatype listener = HandleMove nat | HandleEnd nat

record PointerEvent =
  button :: int
  pointerType :: string
  clientX :: real
  pointer_target :: nat

text \<open>
  The state of one mounted hook with its browser environment: the \<^verbatim>\<open>useRef\<close> cells, the
  published \<^verbatim>\<open>scrollLeft\<close> state, the document, the pending \<^verbatim>\<open>setTimeout\<close> callbacks (handle
  and the event their closure captured), the number of pending animation-frame callbacks, the
  elements with a pending scroll event, the listeners on \<^verbatim>\<open>window\<close>, the drag closures,
  and the logs of callbacks and scroll writes.
\<close>

record world =
  scrollerRef :: "nat option"
  leftScrollerRef :: "nat option"
  syncingRef :: bool
  prevScrollLeftRef :: real
  hasReachedEndRef :: bool
  scrollingLeftRef :: bool
  wasScrollingLeftRef :: bool
  scrollLeftTimeoutRef :: "nat option"
  lastScrollStateRef :: "ScrollState option"
  state_scrollLeft :: real
  dom :: "nat \<Rightarrow> element"
  timers :: "(nat \<times> event) list"
  nextTimer :: nat
  rafCallbacks :: nat
  scrollEvents :: "nat list"
  windowListeners :: "(string \<times> listener) list"
  drags :: "nat \<Rightarrow> drag option"
  nextDrag :: nat
  calls :: "callback list"
  writes :: "dom_write list"

definition TWELVE_MONTHS_IN_DAYS :: real where
  "TWELVE_MONTHS_IN_DAYS = 360"

definition RIGHT_EDGE_THRESHOLD_PX :: real where
  "RIGHT_EDGE_THRESHOLD_PX = 480"

text \<open>The derived values \<^verbatim>\<open>pxPerDay\<close> and \<^verbatim>\<open>twelveMonthsPx\<close> of the hook.  The handlers below take
  the viewport of the render they were created in as an argument.\<close>

definition pxPerDay_of :: "TimelineViewport \<Rightarrow> real" where
  "pxPerDay_of viewport = (case pxPerDay viewport of None \<Rightarrow> 16 | Some p \<Rightarrow> p)"

definition twelveMonthsPx :: "TimelineViewport \<Rightarrow> real" where
  "twelveMonthsPx viewport = TWELVE_MONTHS_IN_DAYS * pxPerDay_of viewport"

text \<open>The hook right after mounting: every \<^verbatim>\<open>useRef\<close> and \<^verbatim>\<open>useState\<close> at its initial value,
  nothing pending.  Timer handles start at 1, as in browsers.\<close>

definition mounted :: "(nat \<Rightarrow> element) \<Rightarrow> nat option \<Rightarrow> nat option \<Rightarrow> world" where
  "mounted d sc lf =
     \<lparr> scrollerRef = sc, leftScrollerRef = lf, syncingRef = False, prevScrollLeftRef = 0,
       hasReachedEndRef = False, scrollingLeftRef = False, wasScrollingLeftRef = False,
       scrollLeftTimeoutRef = None, lastScrollStateRef = None, state_scrollLeft = 0,
       dom = d, timers = [], nextTimer = 1, rafCallbacks = 0, scrollEvents = [],
       windowListeners = [], drags = (\<lambda>_. None), nextDrag = 0, calls = [], writes = [] \<rparr>"

section \<open>Browser primitives\<close>

definition emit :: "callback \<Rightarrow> world \<Rightarrow> world" where
  "emit c w = w\<lparr>calls := calls w @ [c]\<rparr>"

definition setTimeout :: "event \<Rightarrow> world \<Rightarrow> nat \<times> world" where
  "setTimeout ev w =
     (nextTimer w, w\<lparr>timers := timers w @ [(nextTimer w, ev)], nextTimer := Suc (nextTimer w)\<rparr>)"

definition clearTimeout :: "nat \<Rightarrow> world \<Rightarrow> world" where
  "clearTimeout h w = w\<lparr>timers := filter (\<lambda>p. fst p \<noteq> h) (timers w)\<rparr>"

text \<open>JavaScript truthiness of a \<^verbatim>\<open>number | null\<close> timer handle.\<close>

fun truthy :: "nat option \<Rightarrow> bool" where
  "truthy None = False"
| "truthy (Some h) = (h \<noteq> 0)"

definition requestAnimationFrame :: "world \<Rightarrow> world" where
  "requestAnimationFrame w = w\<lparr>rafCallbacks := Suc (rafCallbacks w)\<rparr>"

definition clampScroll :: "real \<Rightarrow> real \<Rightarrow> real" where
  "clampScroll v hi = max 0 (min v hi)"

definition queueScrollEvent :: "nat \<Rightarrow> world \<Rightarrow> world" where
  "queueScrollEvent t w =
     (if t \<in> set (scrollEvents w) then w else w\<lparr>scrollEvents := scrollEvents w @ [t]\<rparr>)"

text \<open>Assigning \<^verbatim>\<open>scrollTop\<close> or \<^verbatim>\<open>scrollLeft\<close>: the document clamps the value to the
  scrollable range and queues a scroll event on the element when its offset changed.\<close>

definition set_scrollTop :: "nat \<Rightarrow> real \<Rightarrow> world \<Rightarrow> world" where
  "set_scrollTop t v w =
     (let el = dom w t;
          v' = clampScroll v (scrollHeight el - clientHeight el);
          w1 = w\<lparr>dom := (dom w)(t := el\<lparr>scrollTop := v'\<rparr>), writes := writes w @ [SetScrollTop t v]\<rparr>
      in if v' \<noteq> scrollTop el then queueScrollEvent t w1 else w1)"

definition set_scrollLeft :: "nat \<Rightarrow> real \<Rightarrow> world \<Rightarrow> world" where
  "set_scrollLeft t v w =
     (let el = dom w t;
          v' = clampScroll v (scrollWidth el - clientWidth el);
          w1 = w\<lparr>dom := (dom w)(t := el\<lparr>scrollLeft := v'\<rparr>), writes := writes w @ [SetScrollLeft t v]\<rparr>
      in if v' \<noteq> scrollLeft el then queueScrollEvent t w1 else w1)"

definition set_cursor :: "nat \<Rightarrow> string \<Rightarrow> world \<Rightarrow> world" where
  "set_cursor t c w = w\<lparr>dom := (dom w)(t := (dom w t)\<lparr>cursor := c\<rparr>)\<rparr>"

definition addEventListener :: "string \<Rightarrow> listener \<Rightarrow> world \<Rightarrow> world" where
  "addEventListener ty l w =
     (if (ty, l) \<in> set (windowListeners w) then w
      else w\<lparr>windowListeners := windowListeners w @ [(ty, l)]\<rparr>)"

definition removeEventListener :: "string \<Rightarrow> listener \<Rightarrow> world \<Rightarrow> world" where
  "removeEventListener ty l w =
     w\<lparr>windowListeners := filter (\<lambda>p. p \<noteq> (ty, l)) (windowListeners w)\<rparr>"

section \<open>date-fns helpers and \<^verbatim>\<open>clampDate\<close>\<close>

text \<open>The four date-fns functions the hook imports, on time values (milliseconds since the
  epoch).  A comparison with an invalid date is false, a difference with one is NaN
  (\<open>None\<close>).\<close>

fun isValid :: "date \<Rightarrow> bool" where
  "isValid (Date t) = True"
| "isValid InvalidDate = False"

fun isBefore :: "date \<Rightarrow> date \<Rightarrow> bool" where
  "isBefore (Date a) (Date b) = (a < b)"
| "isBefore _ _ = False"

fun isAfter :: "date \<Rightarrow> date \<Rightarrow> bool" where
  "isAfter (Date a) (Date b) = (a > b)"
| "isAfter _ _ = False"

definition MILLISECONDS_IN_DAY :: int where
  "MILLISECONDS_IN_DAY = 86400000"

text \<open>\<^verbatim>\<open>differenceInCalendarDays\<close> takes the calendar day of each date in the local time zone
  of the runtime and returns the difference of the two day numbers.  The time zone is a
  parameter: it gives, for a time value, the offset of local time from UTC at that instant in
  milliseconds (\<^verbatim>\<open>-getTimezoneOffset() * 60000\<close> of that date), so that the local wall-clock
  time of \<open>t\<close> is \<open>t + tz t\<close> and its calendar day the whole days in that.\<close>

type_synonym timezone = "int \<Rightarrow> int"

definition calendarDay :: "timezone \<Rightarrow> int \<Rightarrow> int" where
  "calendarDay tz t = (t + tz t) div MILLISECONDS_IN_DAY"

fun differenceInCalendarDays :: "timezone \<Rightarrow> date \<Rightarrow> date \<Rightarrow> int option" where
  "differenceInCalendarDays tz (Date a) (Date b) = Some (calendarDay tz a - calendarDay tz b)"
| "differenceInCalendarDays tz _ _ = None"

definition clampDate :: "date \<Rightarrow> date \<Rightarrow> date \<Rightarrow> date" where
  "clampDate d start end_date =
     (if isBefore d start then start
      else if isAfter d end_date then end_date
      else d)"

section \<open>Scroll detection\<close>

text \<open>The body of the closure passed to \<^verbatim>\<open>setTimeout\<close> in \<^verbatim>\<open>checkAndHandleLeftScroll\<close>;
  \<open>ev\<close> is the event the closure captured.\<close>

definition scrollStopCallback :: "event \<Rightarrow> world \<Rightarrow> world" where
  "scrollStopCallback ev w =
     (case lastScrollStateRef w of
        None \<Rightarrow> w
      | Some l \<Rightarrow>
          if wasScrollingLeftRef w then
            emit OnStopScrollingLeft
              (emit (OnScrollLeft (currentScrollLeft l) (prevScrollLeft l) 0 (scroller l) ev)
                 (w\<lparr>wasScrollingLeftRef := False\<rparr>))
          else w)"

text \<open>The browser runs the pending timer with handle \<open>h\<close>, if there is one.\<close>

definition fireTimer :: "nat \<Rightarrow> world \<Rightarrow> world" where
  "fireTimer h w =
     (case map_of (timers w) h of
        None \<Rightarrow> w
      | Some ev \<Rightarrow> scrollStopCallback ev (clearTimeout h w))"

definition checkAndHandleLeftScroll ::
  "TimelineViewport \<Rightarrow> real \<Rightarrow> real \<Rightarrow> nat \<Rightarrow> event \<Rightarrow> world \<Rightarrow> world" where
  "checkAndHandleLeftScroll viewport cur prev sc ev w =
     (if cur \<ge> prev then
        (let w1 = w\<lparr>scrollingLeftRef := False, wasScrollingLeftRef := False\<rparr>
         in if truthy (scrollLeftTimeoutRef w1)
            then (clearTimeout (the (scrollLeftTimeoutRef w1)) w1)\<lparr>scrollLeftTimeoutRef := None\<rparr>
            else w1)
      else
        (let scrollDelta = prev - cur;
             w1 = emit (OnScrollLeft cur prev scrollDelta sc ev) w;
             w2 = w1\<lparr>lastScrollStateRef :=
                        Some \<lparr>scroller = sc, currentScrollLeft = cur, prevScrollLeft = prev\<rparr>,
                      wasScrollingLeftRef := True\<rparr>;
             w3 = (if \<not> scrollingLeftRef w2 \<and> cur < twelveMonthsPx viewport
                   then emit OnReachStart (w2\<lparr>scrollingLeftRef := True\<rparr>)
                   else w2);
             w4 = (if truthy (scrollLeftTimeoutRef w3)
                   then clearTimeout (the (scrollLeftTimeoutRef w3)) w3
                   else w3);
             (h, w5) = setTimeout ev w4
         in w5\<lparr>scrollLeftTimeoutRef := Some h\<rparr>))"

definition checkAndHandleRightEdge :: "real \<Rightarrow> real \<Rightarrow> nat \<Rightarrow> world \<Rightarrow> world" where
  "checkAndHandleRightEdge cur prev sc w =
     (let maxScroll = scrollWidth (dom w sc) - clientWidth (dom w sc);
          isAtEdge = (cur \<ge> maxScroll - RIGHT_EDGE_THRESHOLD_PX);
          wasNotAtEdge = (prev < maxScroll - RIGHT_EDGE_THRESHOLD_PX)
      in if isAtEdge \<and> wasNotAtEdge then
           (if \<not> hasReachedEndRef w
            then emit OnReachEnd (w\<lparr>hasReachedEndRef := True\<rparr>)
            else w)
         else if \<not> isAtEdge then w\<lparr>hasReachedEndRef := False\<rparr>
         else w)"

definition syncVerticalScroll :: "nat \<Rightarrow> nat \<Rightarrow> world \<Rightarrow> world" where
  "syncVerticalScroll from to w =
     (if syncingRef w then w
      else requestAnimationFrame
             (set_scrollTop to (scrollTop (dom w from)) (w\<lparr>syncingRef := True\<rparr>)))"

text \<open>The browser runs the pending animation-frame callbacks; each of them is
  \<^verbatim>\<open>() => { syncingRef.current = false }\<close>.\<close>

definition animationFrame :: "world \<Rightarrow> world" where
  "animationFrame w =
     (if rafCallbacks w = 0 then w else w\<lparr>syncingRef := False, rafCallbacks := 0\<rparr>)"

section \<open>Navigation\<close>

text \<open>\<^verbatim>\<open>scrollToTask\<close> runs in the time zone \<open>tz\<close> of the runtime; \<open>String\<close> is JavaScript's
  conversion of a task id to a string.\<close>

definition scrollToTask ::
  "timezone \<Rightarrow> ('id \<Rightarrow> string) \<Rightarrow> ('id, 'a) TimelineTask_scheme list \<Rightarrow> TimelineViewport
     \<Rightarrow> string \<Rightarrow> world \<Rightarrow> world" where
  "scrollToTask tz String tasks viewport taskId w =
     (case find (\<lambda>t. String (task_id t) = taskId) tasks of
        None \<Rightarrow> w
      | Some task \<Rightarrow>
          (case scrollerRef w of
             None \<Rightarrow> w
           | Some sc \<Rightarrow>
               (let start = (case task_start task of
                               None \<Rightarrow> None
                             | Some d \<Rightarrow> if isValid d
                                         then Some (clampDate d (vp_start viewport) (vp_end viewport))
                                         else None)
                in case start of
                     None \<Rightarrow> w
                   | Some s \<Rightarrow>
                       (let startOffset =
                              map_option (\<lambda>n. max 0 (real_of_int n) * pxPerDay_of viewport)
                                (differenceInCalendarDays tz s (vp_start viewport));
                            targetScrollLeft =
                              map_option (\<lambda>off. off - clientWidth (dom w sc) / 2) startOffset
                        in w\<lparr>writes := writes w @ [ScrollTo sc targetScrollLeft]\<rparr>))))"

section \<open>Scroll event handlers\<close>

definition handleLeftScroll :: "event \<Rightarrow> world \<Rightarrow> world" where
  "handleLeftScroll e w =
     (let left = currentTarget e
      in case scrollerRef w of
           None \<Rightarrow> w
         | Some right \<Rightarrow> syncVerticalScroll left right w)"

definition handleRightScroll :: "TimelineViewport \<Rightarrow> event \<Rightarrow> world \<Rightarrow> world" where
  "handleRightScroll viewport e w =
     (let sc = currentTarget e;
          cur = scrollLeft (dom w sc);
          prev = prevScrollLeftRef w;
          w1 = w\<lparr>state_scrollLeft := cur\<rparr>;
          w2 = checkAndHandleLeftScroll viewport cur prev sc e w1;
          w3 = checkAndHandleRightEdge cur prev sc w2;
          w4 = w3\<lparr>prevScrollLeftRef := cur\<rparr>
      in case leftScrollerRef w4 of
           None \<Rightarrow> w4
         | Some left \<Rightarrow> syncVerticalScroll sc left w4)"

section \<open>Pointer drag panning\<close>

text \<open>The closures \<^verbatim>\<open>handleMove\<close> and \<^verbatim>\<open>handleEnd\<close> of the \<open>i\<close>-th \<^verbatim>\<open>handlePointerDown\<close>
  call read and write that call's variables, kept in \<open>drags w i\<close>.  \<^verbatim>\<open>preventDefault\<close> and
  the best-effort \<^verbatim>\<open>setPointerCapture\<close> do not touch the state of the hook and are left
  out.\<close>

definition handleMove :: "TimelineViewport \<Rightarrow> nat \<Rightarrow> real \<Rightarrow> world \<Rightarrow> world" where
  "handleMove viewport i x w =
     (case drags w i of
        None \<Rightarrow> w
      | Some d \<Rightarrow>
          if \<not> panning d then w
          else
            (let dx = x - startX d;
                 newScrollLeft = startScrollLeft d - dx;
                 prev = prevScrollLeftRef w;
                 sc = drag_scroller d;
                 w1 = set_scrollLeft sc newScrollLeft w;
                 w2 = w1\<lparr>state_scrollLeft := newScrollLeft\<rparr>;
                 syntheticEvent = SyntheticEvent sc;
                 w3 = checkAndHandleLeftScroll viewport newScrollLeft prev sc syntheticEvent w2;
                 w4 = checkAndHandleRightEdge newScrollLeft prev sc w3
             in w4\<lparr>prevScrollLeftRef := newScrollLeft\<rparr>))"

definition handleEnd :: "nat \<Rightarrow> world \<Rightarrow> world" where
  "handleEnd i w =
     (case drags w i of
        None \<Rightarrow> w
      | Some d \<Rightarrow>
          (let w1 = w\<lparr>drags := (drags w)(i := Some (d\<lparr>panning := False\<rparr>))\<rparr>;
               w2 = set_cursor (drag_el d) (prevCursor d) w1;
               w3 = (case lastScrollStateRef w2 of
                       None \<Rightarrow> w2
                     | Some l \<Rightarrow>
                         if wasScrollingLeftRef w2 then
                           emit OnStopScrollingLeft
                             (emit (OnScrollLeft (currentScrollLeft l) (prevScrollLeft l) 0
                                      (scroller l) (SyntheticEvent (scroller l)))
                                (w2\<lparr>wasScrollingLeftRef := False\<rparr>))
                         else w2)
           in removeEventListener ''pointercancel'' (HandleEnd i)
                (removeEventListener ''pointerup'' (HandleEnd i)
                   (removeEventListener ''pointermove'' (HandleMove i) w3))))"

definition handlePointerDown :: "PointerEvent \<Rightarrow> world \<Rightarrow> world" where
  "handlePointerDown e w =
     (if button e \<noteq> 0 \<and> pointerType e \<noteq> ''touch'' then w
      else case scrollerRef w of
             None \<Rightarrow> w
           | Some sc \<Rightarrow>
               (let i = nextDrag w;
                    el = pointer_target e;
                    d = \<lparr> startX = clientX e, startScrollLeft = scrollLeft (dom w sc),
                          panning = True, drag_scroller = sc, drag_el = el,
                          prevCursor = cursor (dom w el) \<rparr>;
                    w1 = w\<lparr>drags := (drags w)(i := Some d), nextDrag := Suc i\<rparr>;
                    w2 = set_cursor el ''grabbing'' w1
                in addEventListener ''pointercancel'' (HandleEnd i)
                     (addEventListener ''pointerup'' (HandleEnd i)
                        (addEventListener ''pointermove'' (HandleMove i) w2))))"

text \<open>The browser dispatches a pointer event of type \<open>ty\<close> at \<^verbatim>\<open>window\<close>: every listener of
  that type registered at dispatch and not removed meanwhile runs, in registration order.\<close>

fun runListener :: "TimelineViewport \<Rightarrow> listener \<Rightarrow> real \<Rightarrow> world \<Rightarrow> world" where
  "runListener viewport (HandleMove i) x w = handleMove viewport i x w"
| "runListener viewport (HandleEnd i) x w = handleEnd i w"

definition dispatchWindow :: "TimelineViewport \<Rightarrow> string \<Rightarrow> real \<Rightarrow> world \<Rightarrow> world" where
  "dispatchWindow viewport ty x w =
     foldl (\<lambda>w' p. if fst p = ty \<and> p \<in> set (windowListeners w')
                    then runListener viewport (snd p) x w' else w')
       w (windowListeners w)"

section \<open>Runs of the engine\<close>

text \<open>A horizontal-position update reaches the engine either as a native scroll event on
  the chart scroller \<open>sc\<close>, whose \<^verbatim>\<open>scrollLeft\<close> then reads \<open>v\<close>, or as a pointer-move of
  drag \<open>i\<close> at the \<^verbatim>\<open>clientX\<close> for which the handler computes \<open>v\<close>.\<close>

datatype source = NativeScroll | PointerDrag

definition readsScrollLeft :: "nat \<Rightarrow> real \<Rightarrow> world \<Rightarrow> world" where
  "readsScrollLeft t v w = w\<lparr>dom := (dom w)(t := (dom w t)\<lparr>scrollLeft := v\<rparr>)\<rparr>"

definition nativeScroll :: "TimelineViewport \<Rightarrow> nat \<Rightarrow> real \<Rightarrow> world \<Rightarrow> world" where
  "nativeScroll viewport sc v w =
     handleRightScroll viewport (NativeEvent sc) (readsScrollLeft sc v w)"

definition pointerScroll :: "TimelineViewport \<Rightarrow> nat \<Rightarrow> real \<Rightarrow> world \<Rightarrow> world" where
  "pointerScroll viewport i v w =
     (case drags w i of
        None \<Rightarrow> w
      | Some d \<Rightarrow> handleMove viewport i (startX d + (startScrollLeft d - v)) w)"

fun feed :: "TimelineViewport \<Rightarrow> nat \<Rightarrow> nat \<Rightarrow> source \<times> real \<Rightarrow> world \<Rightarrow> world" where
  "feed viewport sc i (NativeScroll, v) w = nativeScroll viewport sc v w"
| "feed viewport sc i (PointerDrag, v) w = pointerScroll viewport i v w"

datatype input = Position source real | TimerFires nat

fun step :: "TimelineViewport \<Rightarrow> nat \<Rightarrow> nat \<Rightarrow> input \<Rightarrow> world \<Rightarrow> world" where
  "step viewport sc i (Position s v) w = feed viewport sc i (s, v) w"
| "step viewport sc i (TimerFires h) w = fireTimer h w"

fun run :: "TimelineViewport \<Rightarrow> nat \<Rightarrow> nat \<Rightarrow> input list \<Rightarrow> world \<Rightarrow> world" where
  "run viewport sc i [] w = w"
| "run viewport sc i (x # xs) w = run viewport sc i xs (step viewport sc i x w)"

text \<open>The callbacks a transition from \<open>w\<close> to \<open>w'\<close> added to the log, and likewise the
  scroll writes.\<close>

definition new_calls :: "world \<Rightarrow> world \<Rightarrow> callback list" where
  "new_calls w w' = drop (length (calls w)) (calls w')"

definition new_writes :: "world \<Rightarrow> world \<Rightarrow> dom_write list" where
  "new_writes w w' = drop (length (writes w)) (writes w')"

section \<open>A harness for vertical mirroring\<close>

text \<open>The board attaches \<^verbatim>\<open>handleLeftScroll\<close> to the element of \<^verbatim>\<open>leftScrollerRef\<close> and
  \<^verbatim>\<open>handleRightScroll\<close> to the element of \<^verbatim>\<open>scrollerRef\<close>.  The harness delivers every queued
  scroll event to the handler of its element until the queue is empty; \<open>None\<close> means the
  fuel ran out with events still queued.\<close>

definition dispatchScroll :: "TimelineViewport \<Rightarrow> nat \<Rightarrow> world \<Rightarrow> world" where
  "dispatchScroll viewport t w =
     (if leftScrollerRef w = Some t then handleLeftScroll (NativeEvent t) w
      else if scrollerRef w = Some t then handleRightScroll viewport (NativeEvent t) w
      else w)"

fun drainScrollEvents :: "nat \<Rightarrow> TimelineViewport \<Rightarrow> world \<Rightarrow> world option" where
  "drainScrollEvents 0 viewport w = (if scrollEvents w = [] then Some w else None)"
| "drainScrollEvents (Suc n) viewport w =
     (case scrollEvents w of
        [] \<Rightarrow> Some w
      | t # ts \<Rightarrow> drainScrollEvents n viewport (dispatchScroll viewport t (w\<lparr>scrollEvents := ts\<rparr>)))"

text \<open>The user scrolls element \<open>t\<close> vertically to \<open>v\<close>.\<close>

definition userScrollTop :: "nat \<Rightarrow> real \<Rightarrow> world \<Rightarrow> world" where
  "userScrollTop t v w =
     (let el = dom w t;
          v' = clampScroll v (scrollHeight el - clientHeight el);
          w1 = w\<lparr>dom := (dom w)(t := el\<lparr>scrollTop := v'\<rparr>)\<rparr>
      in if v' \<noteq> scrollTop el then queueScrollEvent t w1 else w1)"

section \<open>Notions used in the statements\<close>

text \<open>Whether drag \<open>i\<close> is in progress (its listeners would act on a pointer-move), and
  whether it is in progress on scroller \<open>sc\<close>.\<close>

definition panning_drag :: "world \<Rightarrow> nat \<Rightarrow> bool" where
  "panning_drag w i = (case drags w i of None \<Rightarrow> False | Some d \<Rightarrow> panning d)"

definition pointer_on :: "world \<Rightarrow> nat \<Rightarrow> nat \<Rightarrow> bool" where
  "pointer_on w i sc =
     (case drags w i of None \<Rightarrow> False | Some d \<Rightarrow> panning d \<and> drag_scroller d = sc)"

text \<open>The listeners one \<^verbatim>\<open>handlePointerDown\<close> call registers on \<^verbatim>\<open>window\<close>.\<close>

definition drag_listeners :: "nat \<Rightarrow> (string \<times> listener) list" where
  "drag_listeners i =
     [(''pointermove'', HandleMove i), (''pointerup'', HandleEnd i),
      (''pointercancel'', HandleEnd i)]"

text \<open>The positions of a run, in order; and whether they descend strictly below \<open>v\<close>.\<close>

fun positions :: "input list \<Rightarrow> real list" where
  "positions [] = []"
| "positions (Position s v # xs) = v # positions xs"
| "positions (TimerFires h # xs) = positions xs"

fun descending :: "real \<Rightarrow> real list \<Rightarrow> bool" where
  "descending v [] = True"
| "descending v (x # xs) = (x < v \<and> descending x xs)"

text \<open>The remaining right buffer of scroller \<open>sc\<close> at scroll-left \<open>v\<close>: content width minus
  visible width minus scroll-left.  A change of layout gives element \<open>t\<close> a new content
  width and visible width (the document keeps its scroll offset in range).\<close>

definition remaining :: "world \<Rightarrow> nat \<Rightarrow> real \<Rightarrow> real" where
  "remaining w sc v = scrollWidth (dom w sc) - clientWidth (dom w sc) - v"

definition resizes :: "nat \<Rightarrow> real \<Rightarrow> real \<Rightarrow> world \<Rightarrow> world" where
  "resizes t sw cw w =
     w\<lparr>dom := (dom w)(t := (dom w t)\<lparr>scrollWidth := sw, clientWidth := cw,
                                      scrollLeft := clampScroll (scrollLeft (dom w t)) (sw - cw)\<rparr>)\<rparr>"

text \<open>Timer handles are fresh and nonzero, and the only timer that can be pending is the
  one \<^verbatim>\<open>scrollLeftTimeoutRef\<close> holds.\<close>

definition timers_ok :: "world \<Rightarrow> bool" where
  "timers_ok w =
     (0 < nextTimer w \<and> scrollLeftTimeoutRef w \<noteq> Some 0 \<and>
      list_all (\<lambda>p. scrollLeftTimeoutRef w = Some (fst p)) (timers w) \<and>
      distinct (map fst (timers w)))"

text \<open>The event each input path hands to the callbacks; a callback without its event
  payload; an input re-routed through one input path; and the relation between two engines
  whose tracking state agrees up to the events captured by pending timers and handed to
  callbacks.\<close>

fun event_of :: "source \<Rightarrow> nat \<Rightarrow> event" where
  "event_of NativeScroll sc = NativeEvent sc"
| "event_of PointerDrag sc = SyntheticEvent sc"

datatype call_args = ScrollLeftArgs real real real nat | ReachStartCall | ReachEndCall
  | StopScrollingLeftCall

fun args_of :: "callback \<Rightarrow> call_args" where
  "args_of (OnScrollLeft c p d t e) = ScrollLeftArgs c p d t"
| "args_of OnReachStart = ReachStartCall"
| "args_of OnReachEnd = ReachEndCall"
| "args_of OnStopScrollingLeft = StopScrollingLeftCall"

fun through :: "source \<Rightarrow> input \<Rightarrow> input" where
  "through s (Position s' v) = Position s v"
| "through s (TimerFires h) = TimerFires h"

definition same_tracking :: "nat \<Rightarrow> world \<Rightarrow> world \<Rightarrow> bool" where
  "same_tracking sc a b =
     (prevScrollLeftRef a = prevScrollLeftRef b \<and>
      hasReachedEndRef a = hasReachedEndRef b \<and>
      scrollingLeftRef a = scrollingLeftRef b \<and>
      wasScrollingLeftRef a = wasScrollingLeftRef b \<and>
      lastScrollStateRef a = lastScrollStateRef b \<and>
      scrollLeftTimeoutRef a = scrollLeftTimeoutRef b \<and>
      nextTimer a = nextTimer b \<and>
      map fst (timers a) = map fst (timers b) \<and>
      remaining a sc 0 = remaining b sc 0 \<and>
      map args_of (calls a) = map args_of (calls b))"

section \<open>A concrete board\<close>

text \<open>A board with the chart scroller as element 0 (content width 10000, visible width
  1000), the row list as element 1 and the chart surface as element 2, at the default scale
  of 16 pixels per day with a viewport of 100 days.\<close>

definition example_element :: element where
  "example_element =
     \<lparr> scrollLeft = 0, scrollTop = 0, scrollWidth = 10000, clientWidth = 1000,
       scrollHeight = 2000, clientHeight = 500, cursor = [] \<rparr>"

definition example_viewport :: TimelineViewport where
  "example_viewport = \<lparr> vp_start = Date 0, vp_end = Date 8640000000, pxPerDay = Some 16 \<rparr>"

definition example_world :: world where
  "example_world = mounted (\<lambda>_. example_element) (Some 0) (Some 1)"

text \<open>The board after a native scroll event at 1000, and after a further one at 900, which
  opens a leftward episode.\<close>

definition scrolled_to_1000 :: world where
  "scrolled_to_1000 = step example_viewport 0 0 (Position NativeScroll 1000) example_world"

definition scrolled_left :: world where
  "scrolled_left =
     run example_viewport 0 0 [Position NativeScroll 1000, Position NativeScroll 900]
       example_world"

text \<open>The board after a native scroll event at 8000, and then with the chart pane widened to
  1600; and after native scroll events at 8600 twice.\<close>

definition near_end :: world where
  "near_end = feed example_viewport 0 0 (NativeScroll, 8000) example_world"

definition widened :: world where
  "widened = resizes 0 10000 1600 near_end"

definition at_edge :: world where
  "at_edge = run example_viewport 0 0 [Position NativeScroll 8600, Position NativeScroll 8600]
       example_world"

text \<open>A pointer-down with the primary button at \<^verbatim>\<open>clientX\<close> 100 on the chart surface: after
  the two scroll events at 8600, and after the scroll event at 1000; the latter followed by a
  pointer-move to \<^verbatim>\<open>clientX\<close> 200, which pans left to 900.\<close>

definition pointer_down :: PointerEvent where
  "pointer_down = \<lparr> button = 0, pointerType = ''mouse'', clientX = 100, pointer_target = 2 \<rparr>"

definition grabbed_at_edge :: world where
  "grabbed_at_edge = handlePointerDown pointer_down at_edge"

definition grabbed :: world where
  "grabbed = handlePointerDown pointer_down scrolled_to_1000"

definition dragged_left :: world where
  "dragged_left = dispatchWindow example_viewport ''pointermove'' 200 grabbed"

text \<open>Five tasks: one with an invalid start date, one starting 10 days after the viewport's
  start, one starting 10 days before it, one starting 10 days and 6 hours after it, and one
  starting 10 days after the viewport's end; the
  board with a chart pane 500 wide; a viewport that leaves \<^verbatim>\<open>pxPerDay\<close> out; and two time
  zones, UTC and one that is five hours behind UTC throughout.\<close>

definition undated_task :: "string TimelineTask" where
  "undated_task =
     \<lparr> task_id = ''r-2'', title = ''Unscheduled'', task_start = Some InvalidDate,
       task_end = None, baseIndex = 1, isSentinel = None \<rparr>"

definition example_task :: "string TimelineTask" where
  "example_task =
     \<lparr> task_id = ''r-1'', title = ''Project Kickoff'', task_start = Some (Date 864000000),
       task_end = Some (Date 950400000), baseIndex = 0, isSentinel = None \<rparr>"

definition early_task :: "string TimelineTask" where
  "early_task =
     \<lparr> task_id = ''r-0'', title = ''Discovery'', task_start = Some (Date (- 864000000)),
       task_end = Some (Date 0), baseIndex = 2, isSentinel = None \<rparr>"

definition overnight_task :: "string TimelineTask" where
  "overnight_task =
     \<lparr> task_id = ''r-3'', title = ''Design Review'', task_start = Some (Date 885600000),
       task_end = None, baseIndex = 3, isSentinel = None \<rparr>"

definition late_task :: "string TimelineTask" where
  "late_task =
     \<lparr> task_id = ''r-4'', title = ''Launch'', task_start = Some (Date 9504000000),
       task_end = None, baseIndex = 4, isSentinel = None \<rparr>"

definition example_tasks :: "string TimelineTask list" where
  "example_tasks = [undated_task, example_task, early_task, overnight_task, late_task]"

definition unscaled_viewport :: TimelineViewport where
  "unscaled_viewport = \<lparr> vp_start = Date 0, vp_end = Date 8640000000, pxPerDay = None \<rparr>"

definition utc :: timezone where
  "utc = (\<lambda>t. 0)"

definition five_hours_behind :: timezone where
  "five_hours_behind = (\<lambda>t. - 18000000)"

definition narrow_world :: world where
  "narrow_world = mounted (\<lambda>_. example_element\<lparr>clientWidth := 500\<rparr>) (Some 0) (Some 1)"

section \<open>Effects of the helpers on the tracking state\<close>

lemma syncVerticalScroll_frame:
  "calls (syncVerticalScroll a b w) = calls w"
  "timers (syncVerticalScroll a b w) = timers w"
  "nextTimer (syncVerticalScroll a b w) = nextTimer w"
  "scrollLeftTimeoutRef (syncVerticalScroll a b w) = scrollLeftTimeoutRef w"
  "scrollingLeftRef (syncVerticalScroll a b w) = scrollingLeftRef w"
  "wasScrollingLeftRef (syncVerticalScroll a b w) = wasScrollingLeftRef w"
  "lastScrollStateRef (syncVerticalScroll a b w) = lastScrollStateRef w"
  "prevScrollLeftRef (syncVerticalScroll a b w) = prevScrollLeftRef w"
  "hasReachedEndRef (syncVerticalScroll a b w) = hasReachedEndRef w"
  "state_scrollLeft (syncVerticalScroll a b w) = state_scrollLeft w"
  "drags (syncVerticalScroll a b w) = drags w"
  "windowListeners (syncVerticalScroll a b w) = windowListeners w"
  "scrollerRef (syncVerticalScroll a b w) = scrollerRef w"
  "leftScrollerRef (syncVerticalScroll a b w) = leftScrollerRef w"
  "scrollWidth (dom (syncVerticalScroll a b w) t) = scrollWidth (dom w t)"
  "clientWidth (dom (syncVerticalScroll a b w) t) = clientWidth (dom w t)"
  "scrollLeft (dom (syncVerticalScroll a b w) t) = scrollLeft (dom w t)"
  by (simp_all add: syncVerticalScroll_def requestAnimationFrame_def set_scrollTop_def
        queueScrollEvent_def Let_def)

lemma set_scrollLeft_frame:
  "calls (set_scrollLeft t v w) = calls w"
  "timers (set_scrollLeft t v w) = timers w"
  "nextTimer (set_scrollLeft t v w) = nextTimer w"
  "scrollLeftTimeoutRef (set_scrollLeft t v w) = scrollLeftTimeoutRef w"
  "scrollingLeftRef (set_scrollLeft t v w) = scrollingLeftRef w"
  "wasScrollingLeftRef (set_scrollLeft t v w) = wasScrollingLeftRef w"
  "lastScrollStateRef (set_scrollLeft t v w) = lastScrollStateRef w"
  "prevScrollLeftRef (set_scrollLeft t v w) = prevScrollLeftRef w"
  "hasReachedEndRef (set_scrollLeft t v w) = hasReachedEndRef w"
  "state_scrollLeft (set_scrollLeft t v w) = state_scrollLeft w"
  "drags (set_scrollLeft t v w) = drags w"
  "windowListeners (set_scrollLeft t v w) = windowListeners w"
  "scrollerRef (set_scrollLeft t v w) = scrollerRef w"
  "leftScrollerRef (set_scrollLeft t v w) = leftScrollerRef w"
  "syncingRef (set_scrollLeft t v w) = syncingRef w"
  "rafCallbacks (set_scrollLeft t v w) = rafCallbacks w"
  "scrollWidth (dom (set_scrollLeft t v w) u) = scrollWidth (dom w u)"
  "clientWidth (dom (set_scrollLeft t v w) u) = clientWidth (dom w u)"
  by (simp_all add: set_scrollLeft_def queueScrollEvent_def Let_def)

lemma checkAndHandleRightEdge_eq:
  "checkAndHandleRightEdge cur prev sc w =
     w\<lparr>hasReachedEndRef :=
          (cur \<ge> scrollWidth (dom w sc) - clientWidth (dom w sc) - 480) \<and>
          (hasReachedEndRef w \<or> prev < scrollWidth (dom w sc) - clientWidth (dom w sc) - 480),
        calls := calls w @
          (if cur \<ge> scrollWidth (dom w sc) - clientWidth (dom w sc) - 480 \<and>
              prev < scrollWidth (dom w sc) - clientWidth (dom w sc) - 480 \<and>
              \<not> hasReachedEndRef w then [OnReachEnd] else [])\<rparr>"
  by (auto simp: checkAndHandleRightEdge_def RIGHT_EDGE_THRESHOLD_PX_def emit_def Let_def)

lemma timers_ok_clear:
  "timers_ok w \<Longrightarrow> scrollLeftTimeoutRef w = Some h \<Longrightarrow> filter (\<lambda>p. fst p \<noteq> h) (timers w) = []"
  by (auto simp: timers_ok_def list_all_iff filter_empty_conv)

lemma timers_ok_None:
  "timers_ok w \<Longrightarrow> scrollLeftTimeoutRef w = None \<Longrightarrow> timers w = []"
  by (cases "timers w") (auto simp: timers_ok_def)

lemma checkLeft_nonleft:
  assumes "prev \<le> cur"
  shows "checkAndHandleLeftScroll vp cur prev sc ev w =
     (if truthy (scrollLeftTimeoutRef w)
      then w\<lparr>scrollingLeftRef := False, wasScrollingLeftRef := False,
             timers := filter (\<lambda>p. fst p \<noteq> the (scrollLeftTimeoutRef w)) (timers w),
             scrollLeftTimeoutRef := None\<rparr>
      else w\<lparr>scrollingLeftRef := False, wasScrollingLeftRef := False\<rparr>)"
  using assms by (simp add: checkAndHandleLeftScroll_def clearTimeout_def Let_def)

lemma checkLeft_left:
  assumes "cur < prev"
  shows "checkAndHandleLeftScroll vp cur prev sc ev w =
     w\<lparr>calls := calls w @ OnScrollLeft cur prev (prev - cur) sc ev #
                  (if \<not> scrollingLeftRef w \<and> cur < twelveMonthsPx vp then [OnReachStart] else []),
       lastScrollStateRef := Some \<lparr>scroller = sc, currentScrollLeft = cur, prevScrollLeft = prev\<rparr>,
       wasScrollingLeftRef := True,
       scrollingLeftRef := (scrollingLeftRef w \<or> cur < twelveMonthsPx vp),
       timers := (if truthy (scrollLeftTimeoutRef w)
                  then filter (\<lambda>p. fst p \<noteq> the (scrollLeftTimeoutRef w)) (timers w)
                  else timers w) @ [(nextTimer w, ev)],
       nextTimer := Suc (nextTimer w),
       scrollLeftTimeoutRef := Some (nextTimer w)\<rparr>"
  using assms
  by (auto simp: checkAndHandleLeftScroll_def clearTimeout_def setTimeout_def emit_def Let_def)


lemma readsScrollLeft_frame:
  "calls (readsScrollLeft t v w) = calls w"
  "timers (readsScrollLeft t v w) = timers w"
  "nextTimer (readsScrollLeft t v w) = nextTimer w"
  "scrollLeftTimeoutRef (readsScrollLeft t v w) = scrollLeftTimeoutRef w"
  "scrollingLeftRef (readsScrollLeft t v w) = scrollingLeftRef w"
  "wasScrollingLeftRef (readsScrollLeft t v w) = wasScrollingLeftRef w"
  "lastScrollStateRef (readsScrollLeft t v w) = lastScrollStateRef w"
  "prevScrollLeftRef (readsScrollLeft t v w) = prevScrollLeftRef w"
  "hasReachedEndRef (readsScrollLeft t v w) = hasReachedEndRef w"
  "drags (readsScrollLeft t v w) = drags w"
  "leftScrollerRef (readsScrollLeft t v w) = leftScrollerRef w"
  "scrollLeft (dom (readsScrollLeft t v w) t) = v"
  "scrollWidth (dom (readsScrollLeft t v w) u) = scrollWidth (dom w u)"
  "clientWidth (dom (readsScrollLeft t v w) u) = clientWidth (dom w u)"
  by (simp_all add: readsScrollLeft_def)

lemmas frames = syncVerticalScroll_frame set_scrollLeft_frame readsScrollLeft_frame


lemmas handler_simps =
  nativeScroll_def handleRightScroll_def pointerScroll_def handleMove_def panning_drag_def
  Let_def checkAndHandleRightEdge_eq frames


lemma pointerScroll_active:
  assumes "drags w i = Some d" "panning d"
  shows "pointerScroll vp i v w =
     (checkAndHandleRightEdge v (prevScrollLeftRef w) (drag_scroller d)
        (checkAndHandleLeftScroll vp v (prevScrollLeftRef w) (drag_scroller d)
           (SyntheticEvent (drag_scroller d))
           ((set_scrollLeft (drag_scroller d) v w)\<lparr>state_scrollLeft := v\<rparr>)))
     \<lparr>prevScrollLeftRef := v\<rparr>"
  using assms by (simp add: pointerScroll_def handleMove_def Let_def frames)

lemma feed_nonleft:
  assumes "timers_ok w" "prevScrollLeftRef w \<le> v" "s = PointerDrag \<longrightarrow> panning_drag w i"
  shows "timers (feed vp sc i (s, v) w) = []"
    and "scrollLeftTimeoutRef (feed vp sc i (s, v) w) = None"
    and "\<not> scrollingLeftRef (feed vp sc i (s, v) w)"
    and "\<not> wasScrollingLeftRef (feed vp sc i (s, v) w)"
    and "\<forall>c \<in> set (new_calls w (feed vp sc i (s, v) w)). c = OnReachEnd"
proof -
  have ref: "scrollLeftTimeoutRef w \<noteq> Some 0" using assms(1) by (simp add: timers_ok_def)
  note clr = timers_ok_clear[OF assms(1)] timers_ok_None[OF assms(1)]
  show "timers (feed vp sc i (s, v) w) = []"
  proof (cases s)
    case NativeScroll
    then show ?thesis using assms ref clr
      by (cases "scrollLeftTimeoutRef w")
         (simp_all add: handler_simps checkLeft_nonleft split: option.splits)
  next
    case PointerDrag
    then obtain d where "drags w i = Some d" "panning d"
      using assms(3) by (auto simp: panning_drag_def split: option.splits)
    then show ?thesis using PointerDrag assms ref clr
      by (cases "scrollLeftTimeoutRef w")
         (simp_all add: pointerScroll_active checkAndHandleRightEdge_eq frames checkLeft_nonleft)
  qed
  show "scrollLeftTimeoutRef (feed vp sc i (s, v) w) = None"
  proof (cases s)
    case NativeScroll
    then show ?thesis using assms ref
      by (cases "scrollLeftTimeoutRef w")
         (simp_all add: handler_simps checkLeft_nonleft split: option.splits)
  next
    case PointerDrag
    then obtain d where "drags w i = Some d" "panning d"
      using assms(3) by (auto simp: panning_drag_def split: option.splits)
    then show ?thesis using PointerDrag assms ref
      by (cases "scrollLeftTimeoutRef w")
         (simp_all add: pointerScroll_active checkAndHandleRightEdge_eq frames checkLeft_nonleft)
  qed
  show "\<not> scrollingLeftRef (feed vp sc i (s, v) w)"
  proof (cases s)
    case NativeScroll
    then show ?thesis using assms
      by (simp add: handler_simps checkLeft_nonleft split: option.splits)
  next
    case PointerDrag
    then obtain d where "drags w i = Some d" "panning d"
      using assms(3) by (auto simp: panning_drag_def split: option.splits)
    then show ?thesis using PointerDrag assms
      by (simp add: pointerScroll_active checkAndHandleRightEdge_eq frames checkLeft_nonleft)
  qed
  show "\<not> wasScrollingLeftRef (feed vp sc i (s, v) w)"
  proof (cases s)
    case NativeScroll
    then show ?thesis using assms
      by (simp add: handler_simps checkLeft_nonleft split: option.splits)
  next
    case PointerDrag
    then obtain d where "drags w i = Some d" "panning d"
      using assms(3) by (auto simp: panning_drag_def split: option.splits)
    then show ?thesis using PointerDrag assms
      by (simp add: pointerScroll_active checkAndHandleRightEdge_eq frames checkLeft_nonleft)
  qed
  show "\<forall>c \<in> set (new_calls w (feed vp sc i (s, v) w)). c = OnReachEnd"
  proof (cases s)
    case NativeScroll
    then show ?thesis using assms
      by (simp add: new_calls_def handler_simps checkLeft_nonleft split: option.splits)
  next
    case PointerDrag
    then obtain d where "drags w i = Some d" "panning d"
      using assms(3) by (auto simp: panning_drag_def split: option.splits)
    then show ?thesis using PointerDrag assms
      by (simp add: new_calls_def pointerScroll_active checkAndHandleRightEdge_eq frames
            checkLeft_nonleft)
  qed
qed

lemmas eval_simps =
  example_world_def example_viewport_def example_element_def mounted_def nativeScroll_def handleRightScroll_def pointerScroll_def handleMove_def
  checkAndHandleLeftScroll_def checkAndHandleRightEdge_def syncVerticalScroll_def
  readsScrollLeft_def set_scrollTop_def set_scrollLeft_def set_cursor_def queueScrollEvent_def
  requestAnimationFrame_def clampScroll_def emit_def setTimeout_def clearTimeout_def
  fireTimer_def scrollStopCallback_def twelveMonthsPx_def pxPerDay_of_def
  TWELVE_MONTHS_IN_DAYS_def RIGHT_EDGE_THRESHOLD_PX_def
  Let_def

lemma scrolled_left_fields:
  "prevScrollLeftRef scrolled_left = 900"
  "timers scrolled_left = [(1, NativeEvent 0)]"
  "scrollLeftTimeoutRef scrolled_left = Some 1"
  "nextTimer scrolled_left = 2"
  "scrollingLeftRef scrolled_left"
  "wasScrollingLeftRef scrolled_left"
  "lastScrollStateRef scrolled_left = Some \<lparr>scroller = 0, currentScrollLeft = 900, prevScrollLeft = 1000\<rparr>"
  "calls scrolled_left = [OnScrollLeft 900 1000 100 0 (NativeEvent 0), OnReachStart]"
  "hasReachedEndRef scrolled_left = False"
  "leftScrollerRef scrolled_left = Some 1"
  by (simp_all add: scrolled_left_def eval_simps)

lemma checkLeft_calls_ex:
  "\<exists>cs. calls (checkAndHandleLeftScroll vp cur prev sc ev w) = calls w @ cs"
  by (cases "cur < prev") (simp_all add: checkLeft_left checkLeft_nonleft)

lemma checkLeft_frame:
  "prevScrollLeftRef (checkAndHandleLeftScroll vp cur prev sc ev w) = prevScrollLeftRef w"
  "hasReachedEndRef (checkAndHandleLeftScroll vp cur prev sc ev w) = hasReachedEndRef w"
  "dom (checkAndHandleLeftScroll vp cur prev sc ev w) = dom w"
  "drags (checkAndHandleLeftScroll vp cur prev sc ev w) = drags w"
  "leftScrollerRef (checkAndHandleLeftScroll vp cur prev sc ev w) = leftScrollerRef w"
  "scrollerRef (checkAndHandleLeftScroll vp cur prev sc ev w) = scrollerRef w"
  "syncingRef (checkAndHandleLeftScroll vp cur prev sc ev w) = syncingRef w"
  "state_scrollLeft (checkAndHandleLeftScroll vp cur prev sc ev w) = state_scrollLeft w"
  "writes (checkAndHandleLeftScroll vp cur prev sc ev w) = writes w"
  by (cases "cur < prev"; simp add: checkLeft_left checkLeft_nonleft)+

lemma nativeScroll_calls_ex: "\<exists>cs. calls (nativeScroll vp sc v w) = calls w @ cs"
proof -
  obtain cs where "calls (checkAndHandleLeftScroll vp v (prevScrollLeftRef w) sc (NativeEvent sc)
      ((readsScrollLeft sc v w)\<lparr>state_scrollLeft := v\<rparr>)) = calls w @ cs"
    using checkLeft_calls_ex[of vp v "prevScrollLeftRef w" sc "NativeEvent sc"
        "(readsScrollLeft sc v w)\<lparr>state_scrollLeft := v\<rparr>"]
    by (auto simp: frames)
  then show ?thesis
    by (simp add: handler_simps split: option.splits)
qed

lemma pointerScroll_calls_ex: "\<exists>cs. calls (pointerScroll vp i v w) = calls w @ cs"
proof (cases "drags w i")
  case None
  then show ?thesis by (simp add: pointerScroll_def)
next
  case (Some d)
  show ?thesis
  proof (cases "panning d")
    case False
    then show ?thesis using Some by (simp add: pointerScroll_def handleMove_def)
  next
    case True
    obtain cs where "calls (checkAndHandleLeftScroll vp v (prevScrollLeftRef w) (drag_scroller d)
        (SyntheticEvent (drag_scroller d))
        ((set_scrollLeft (drag_scroller d) v w)\<lparr>state_scrollLeft := v\<rparr>)) = calls w @ cs"
      using checkLeft_calls_ex[of vp v "prevScrollLeftRef w" "drag_scroller d"
          "SyntheticEvent (drag_scroller d)"
          "(set_scrollLeft (drag_scroller d) v w)\<lparr>state_scrollLeft := v\<rparr>"]
      by (auto simp: frames)
    then show ?thesis
      using Some True by (simp add: pointerScroll_active checkAndHandleRightEdge_eq)
  qed
qed

lemma fireTimer_calls:
  "calls (fireTimer h w) = calls w \<or>
   (\<exists>c p t e. calls (fireTimer h w) = calls w @ [OnScrollLeft c p 0 t e, OnStopScrollingLeft])"
  by (auto simp: fireTimer_def scrollStopCallback_def clearTimeout_def emit_def
        split: option.splits)

lemma fireTimer_frame:
  "prevScrollLeftRef (fireTimer h w) = prevScrollLeftRef w"
  "scrollingLeftRef (fireTimer h w) = scrollingLeftRef w"
  "hasReachedEndRef (fireTimer h w) = hasReachedEndRef w"
  "drags (fireTimer h w) = drags w"
  "dom (fireTimer h w) = dom w"
  "lastScrollStateRef (fireTimer h w) = lastScrollStateRef w"
  "scrollLeftTimeoutRef (fireTimer h w) = scrollLeftTimeoutRef w"
  "nextTimer (fireTimer h w) = nextTimer w"
  by (simp_all add: fireTimer_def scrollStopCallback_def clearTimeout_def emit_def
        split: option.splits)

lemma step_calls_ex: "\<exists>cs. calls (step vp sc i x w) = calls w @ cs"
proof (cases x)
  case (Position s v)
  then show ?thesis
    using nativeScroll_calls_ex pointerScroll_calls_ex by (cases s) simp_all
next
  case (TimerFires h)
  then show ?thesis using fireTimer_calls[of h w] by auto
qed

lemma run_calls_ex: "\<exists>cs. calls (run vp sc i xs w) = calls w @ cs"
proof (induction xs arbitrary: w)
  case Nil
  then show ?case by simp
next
  case (Cons x xs)
  obtain a where a: "calls (step vp sc i x w) = calls w @ a"
    using step_calls_ex by blast
  obtain b where "calls (run vp sc i xs (step vp sc i x w)) = calls (step vp sc i x w) @ b"
    using Cons.IH by blast
  then show ?case using a by simp
qed

lemma new_calls_trans:
  assumes "\<exists>cs. calls w' = calls w @ cs" "\<exists>cs. calls w'' = calls w' @ cs"
  shows "new_calls w w'' = new_calls w w' @ new_calls w' w''"
  using assms by (auto simp: new_calls_def)

lemma new_calls_run_step:
  "new_calls w (run vp sc i xs (step vp sc i x w)) =
     new_calls w (step vp sc i x w) @ new_calls (step vp sc i x w) (run vp sc i xs (step vp sc i x w))"
  by (rule new_calls_trans[OF step_calls_ex run_calls_ex])

lemma feed_left:
  assumes "v < prevScrollLeftRef w" "s = PointerDrag \<longrightarrow> panning_drag w i"
  shows "count_list (new_calls w (feed vp sc i (s, v) w)) OnReachStart =
           (if \<not> scrollingLeftRef w \<and> v < twelveMonthsPx vp then 1 else 0)"
    and "scrollingLeftRef (feed vp sc i (s, v) w) = (scrollingLeftRef w \<or> v < twelveMonthsPx vp)"
    and "prevScrollLeftRef (feed vp sc i (s, v) w) = v"
    and "wasScrollingLeftRef (feed vp sc i (s, v) w)"
proof -
  show "count_list (new_calls w (feed vp sc i (s, v) w)) OnReachStart =
           (if \<not> scrollingLeftRef w \<and> v < twelveMonthsPx vp then 1 else 0)"
  proof (cases s)
    case NativeScroll
    then show ?thesis using assms
      by (auto simp: new_calls_def handler_simps checkLeft_left split: option.splits)
  next
    case PointerDrag
    then obtain d where "drags w i = Some d" "panning d"
      using assms(2) by (auto simp: panning_drag_def split: option.splits)
    then show ?thesis using PointerDrag assms
      by (auto simp: new_calls_def pointerScroll_active checkAndHandleRightEdge_eq frames
            checkLeft_left)
  qed
  show "scrollingLeftRef (feed vp sc i (s, v) w) = (scrollingLeftRef w \<or> v < twelveMonthsPx vp)"
  proof (cases s)
    case NativeScroll
    then show ?thesis using assms
      by (simp add: handler_simps checkLeft_left split: option.splits)
  next
    case PointerDrag
    then obtain d where "drags w i = Some d" "panning d"
      using assms(2) by (auto simp: panning_drag_def split: option.splits)
    then show ?thesis using PointerDrag assms
      by (simp add: pointerScroll_active checkAndHandleRightEdge_eq frames checkLeft_left)
  qed
  show "prevScrollLeftRef (feed vp sc i (s, v) w) = v"
  proof (cases s)
    case NativeScroll
    then show ?thesis
      by (simp add: handler_simps split: option.splits)
  next
    case PointerDrag
    then obtain d where "drags w i = Some d" "panning d"
      using assms(2) by (auto simp: panning_drag_def split: option.splits)
    then show ?thesis using PointerDrag
      by (simp add: pointerScroll_active)
  qed
  show "wasScrollingLeftRef (feed vp sc i (s, v) w)"
  proof (cases s)
    case NativeScroll
    then show ?thesis using assms
      by (simp add: handler_simps checkLeft_left split: option.splits)
  next
    case PointerDrag
    then obtain d where "drags w i = Some d" "panning d"
      using assms(2) by (auto simp: panning_drag_def split: option.splits)
    then show ?thesis using PointerDrag assms
      by (simp add: pointerScroll_active checkAndHandleRightEdge_eq frames checkLeft_left)
  qed
qed

lemma feed_idle: "\<not> panning_drag w i \<Longrightarrow> feed vp sc i (PointerDrag, v) w = w"
  by (simp add: pointerScroll_def handleMove_def panning_drag_def split: option.splits)

lemma descending_mono: "descending v xs \<Longrightarrow> v \<le> p \<Longrightarrow> descending p xs"
  by (cases xs) auto

lemma run_no_reachStart:
  assumes "scrollingLeftRef w" "descending (prevScrollLeftRef w) (positions xs)"
  shows "OnReachStart \<notin> set (new_calls w (run vp sc i xs w))"
  using assms
proof (induction xs arbitrary: w)
  case Nil
  then show ?case by (simp add: new_calls_def)
next
  case (Cons x xs)
  show ?case
  proof (cases x)
    case (TimerFires h)
    have "OnReachStart \<notin> set (new_calls w (fireTimer h w))"
      using fireTimer_calls[of h w] by (auto simp: new_calls_def)
    moreover have "OnReachStart \<notin> set (new_calls (fireTimer h w) (run vp sc i xs (fireTimer h w)))"
    proof (rule Cons.IH)
      show "scrollingLeftRef (fireTimer h w)"
        using Cons.prems(1) by (simp add: fireTimer_frame)
      show "descending (prevScrollLeftRef (fireTimer h w)) (positions xs)"
        using Cons.prems(2) TimerFires by (simp add: fireTimer_frame)
    qed
    ultimately show ?thesis
      unfolding TimerFires run.simps new_calls_run_step[of w vp sc i xs "TimerFires h"]
      by simp
  next
    case (Position s v)
    then have lt: "v < prevScrollLeftRef w" and rest: "descending v (positions xs)"
      using Cons.prems(2) by simp_all
    show ?thesis
    proof (cases "s = PointerDrag \<and> \<not> panning_drag w i")
      case True
      then have np: "\<not> panning_drag w i" and sp: "s = PointerDrag" by simp_all
      have same: "step vp sc i x w = w"
        unfolding Position sp step.simps using np by (rule feed_idle)
      have "descending (prevScrollLeftRef w) (positions xs)"
        using rest lt descending_mono[of v "positions xs" "prevScrollLeftRef w"] by simp
      then have "OnReachStart \<notin> set (new_calls w (run vp sc i xs w))"
        using Cons.prems(1) by (rule Cons.IH[rotated])
      then show ?thesis unfolding run.simps same .
    next
      case False
      then have act: "s = PointerDrag \<longrightarrow> panning_drag w i" by blast
      have "count_list (new_calls w (feed vp sc i (s, v) w)) OnReachStart = 0"
        using feed_left(1)[OF lt act, of vp sc] Cons.prems(1) by simp
      then have "OnReachStart \<notin> set (new_calls w (feed vp sc i (s, v) w))"
        by (simp add: count_list_0_iff)
      moreover have "OnReachStart \<notin> set (new_calls (feed vp sc i (s, v) w)
                        (run vp sc i xs (feed vp sc i (s, v) w)))"
      proof (rule Cons.IH)
        show "scrollingLeftRef (feed vp sc i (s, v) w)"
          using Cons.prems(1) feed_left(2)[OF lt act, of vp sc] by simp
        show "descending (prevScrollLeftRef (feed vp sc i (s, v) w)) (positions xs)"
          using rest feed_left(3)[OF lt act, of vp sc] by simp
      qed
      ultimately show ?thesis
        unfolding Position run.simps new_calls_run_step[of w vp sc i xs "Position s v"]
        by simp
    qed
  qed
qed

lemma scrolled_to_1000_fields:
  "prevScrollLeftRef scrolled_to_1000 = 1000"
  "scrollingLeftRef scrolled_to_1000 = False"
  "calls scrolled_to_1000 = []"
  by (simp_all add: scrolled_to_1000_def eval_simps)

lemma calls_new_calls:
  "\<exists>cs. calls w' = calls w @ cs \<Longrightarrow> calls w' = calls w @ new_calls w w'"
  by (auto simp: new_calls_def)

lemma pointer_onD:
  assumes "pointer_on w i sc"
  obtains d where "drags w i = Some d" "panning d" "drag_scroller d = sc"
  using assms by (auto simp: pointer_on_def split: option.splits)

lemma feed_as_checks:
  assumes "s = PointerDrag \<longrightarrow> pointer_on w i sc"
  shows "\<exists>w0. feed vp sc i (s, v) w =
            (case s of NativeScroll \<Rightarrow> (\<lambda>x. case leftScrollerRef x of None \<Rightarrow> x
                                               | Some left \<Rightarrow> syncVerticalScroll sc left x)
                     | PointerDrag \<Rightarrow> (\<lambda>x. x))
            ((checkAndHandleRightEdge v (prevScrollLeftRef w) sc
               (checkAndHandleLeftScroll vp v (prevScrollLeftRef w) sc (event_of s sc) w0))
             \<lparr>prevScrollLeftRef := v\<rparr>) \<and>
          calls w0 = calls w \<and> timers w0 = timers w \<and> nextTimer w0 = nextTimer w \<and>
          scrollLeftTimeoutRef w0 = scrollLeftTimeoutRef w \<and>
          scrollingLeftRef w0 = scrollingLeftRef w \<and>
          wasScrollingLeftRef w0 = wasScrollingLeftRef w \<and>
          lastScrollStateRef w0 = lastScrollStateRef w \<and>
          prevScrollLeftRef w0 = prevScrollLeftRef w \<and>
          hasReachedEndRef w0 = hasReachedEndRef w \<and>
          drags w0 = drags w \<and> leftScrollerRef w0 = leftScrollerRef w \<and>
          state_scrollLeft w0 = v \<and>
          scrollWidth (dom w0 sc) = scrollWidth (dom w sc) \<and>
          clientWidth (dom w0 sc) = clientWidth (dom w sc)"
proof (cases s)
  case NativeScroll
  show ?thesis
    by (rule exI[of _ "(readsScrollLeft sc v w)\<lparr>state_scrollLeft := v\<rparr>"])
       (simp add: NativeScroll nativeScroll_def handleRightScroll_def Let_def frames
          cong: option.case_cong)
next
  case PointerDrag
  then obtain d where d: "drags w i = Some d" "panning d" "drag_scroller d = sc"
    using assms pointer_onD by blast
  show ?thesis
    by (rule exI[of _ "(set_scrollLeft sc v w)\<lparr>state_scrollLeft := v\<rparr>"])
       (use d in \<open>simp add: PointerDrag pointerScroll_active frames\<close>)
qed

lemma remaining_le: "(remaining w sc v \<le> 480) = (scrollWidth (dom w sc) - clientWidth (dom w sc) - 480 \<le> v)"
  and remaining_gt: "(480 < remaining w sc v) = (v < scrollWidth (dom w sc) - clientWidth (dom w sc) - 480)"
  by (auto simp: remaining_def)

lemma feed_track:
  assumes "s = PointerDrag \<longrightarrow> pointer_on w i sc"
  shows "prevScrollLeftRef (feed vp sc i (s, v) w) = v"
    and "state_scrollLeft (feed vp sc i (s, v) w) = v"
    and "hasReachedEndRef (feed vp sc i (s, v) w) =
           (remaining w sc v \<le> 480 \<and>
            (hasReachedEndRef w \<or> 480 < remaining w sc (prevScrollLeftRef w)))"
    and "calls (feed vp sc i (s, v) w) =
           calls w @
           (if v < prevScrollLeftRef w
            then OnScrollLeft v (prevScrollLeftRef w) (prevScrollLeftRef w - v) sc (event_of s sc) #
                 (if \<not> scrollingLeftRef w \<and> v < twelveMonthsPx vp then [OnReachStart] else [])
            else []) @
           (if remaining w sc v \<le> 480 \<and> 480 < remaining w sc (prevScrollLeftRef w) \<and>
               \<not> hasReachedEndRef w then [OnReachEnd] else [])"
    and "scrollingLeftRef (feed vp sc i (s, v) w) =
           (v < prevScrollLeftRef w \<and> (scrollingLeftRef w \<or> v < twelveMonthsPx vp))"
    and "wasScrollingLeftRef (feed vp sc i (s, v) w) = (v < prevScrollLeftRef w)"
    and "lastScrollStateRef (feed vp sc i (s, v) w) =
           (if v < prevScrollLeftRef w
            then Some \<lparr>scroller = sc, currentScrollLeft = v, prevScrollLeft = prevScrollLeftRef w\<rparr>
            else lastScrollStateRef w)"
    and "scrollLeftTimeoutRef (feed vp sc i (s, v) w) =
           (if v < prevScrollLeftRef w then Some (nextTimer w)
            else if truthy (scrollLeftTimeoutRef w) then None else scrollLeftTimeoutRef w)"
    and "timers (feed vp sc i (s, v) w) =
           (if truthy (scrollLeftTimeoutRef w)
            then filter (\<lambda>p. fst p \<noteq> the (scrollLeftTimeoutRef w)) (timers w) else timers w) @
           (if v < prevScrollLeftRef w then [(nextTimer w, event_of s sc)] else [])"
    and "nextTimer (feed vp sc i (s, v) w) =
           (if v < prevScrollLeftRef w then Suc (nextTimer w) else nextTimer w)"
    and "remaining (feed vp sc i (s, v) w) sc x = remaining w sc x"
    and "drags (feed vp sc i (s, v) w) = drags w"
proof -
  obtain w0 where eq: "feed vp sc i (s, v) w =
            (case s of NativeScroll \<Rightarrow> (\<lambda>x. case leftScrollerRef x of None \<Rightarrow> x
                                               | Some left \<Rightarrow> syncVerticalScroll sc left x)
                     | PointerDrag \<Rightarrow> (\<lambda>x. x))
            ((checkAndHandleRightEdge v (prevScrollLeftRef w) sc
               (checkAndHandleLeftScroll vp v (prevScrollLeftRef w) sc (event_of s sc) w0))
             \<lparr>prevScrollLeftRef := v\<rparr>)"
    and w0: "calls w0 = calls w" "timers w0 = timers w" "nextTimer w0 = nextTimer w"
          "scrollLeftTimeoutRef w0 = scrollLeftTimeoutRef w"
          "scrollingLeftRef w0 = scrollingLeftRef w"
          "wasScrollingLeftRef w0 = wasScrollingLeftRef w"
          "lastScrollStateRef w0 = lastScrollStateRef w"
          "prevScrollLeftRef w0 = prevScrollLeftRef w"
          "hasReachedEndRef w0 = hasReachedEndRef w"
          "drags w0 = drags w" "leftScrollerRef w0 = leftScrollerRef w"
          "state_scrollLeft w0 = v"
          "scrollWidth (dom w0 sc) = scrollWidth (dom w sc)"
          "clientWidth (dom w0 sc) = clientWidth (dom w sc)"
    using feed_as_checks[OF assms, of vp v] by blast
  define X where "X = (checkAndHandleRightEdge v (prevScrollLeftRef w) sc
               (checkAndHandleLeftScroll vp v (prevScrollLeftRef w) sc (event_of s sc) w0))
             \<lparr>prevScrollLeftRef := v\<rparr>"
  have eqN: "s = NativeScroll \<Longrightarrow> nativeScroll vp sc v w =
               (case leftScrollerRef X of None \<Rightarrow> X | Some left \<Rightarrow> syncVerticalScroll sc left X)"
    using eq unfolding X_def by (simp cong: option.case_cong)
  have eqP: "s = PointerDrag \<Longrightarrow> pointerScroll vp i v w = X"
    using eq by (simp add: X_def)
  note simps = eqN eqP X_def w0 checkAndHandleRightEdge_eq checkLeft_frame frames
    remaining_le remaining_gt
  show "prevScrollLeftRef (feed vp sc i (s, v) w) = v"
    by (cases s) (simp_all add: simps split: option.splits)
  show "state_scrollLeft (feed vp sc i (s, v) w) = v"
    by (cases s) (simp_all add: simps split: option.splits)
  show "hasReachedEndRef (feed vp sc i (s, v) w) =
           (remaining w sc v \<le> 480 \<and>
            (hasReachedEndRef w \<or> 480 < remaining w sc (prevScrollLeftRef w)))"
    by (cases s) (simp_all add: simps split: option.splits)
  show "calls (feed vp sc i (s, v) w) =
           calls w @
           (if v < prevScrollLeftRef w
            then OnScrollLeft v (prevScrollLeftRef w) (prevScrollLeftRef w - v) sc (event_of s sc) #
                 (if \<not> scrollingLeftRef w \<and> v < twelveMonthsPx vp then [OnReachStart] else [])
            else []) @
           (if remaining w sc v \<le> 480 \<and> 480 < remaining w sc (prevScrollLeftRef w) \<and>
               \<not> hasReachedEndRef w then [OnReachEnd] else [])"
    by (cases s; cases "v < prevScrollLeftRef w")
       (auto simp: simps checkLeft_left checkLeft_nonleft split: option.splits)
  show "scrollingLeftRef (feed vp sc i (s, v) w) =
           (v < prevScrollLeftRef w \<and> (scrollingLeftRef w \<or> v < twelveMonthsPx vp))"
    by (cases s; cases "v < prevScrollLeftRef w")
       (simp_all add: simps checkLeft_left checkLeft_nonleft split: option.splits)
  show "wasScrollingLeftRef (feed vp sc i (s, v) w) = (v < prevScrollLeftRef w)"
    by (cases s; cases "v < prevScrollLeftRef w")
       (simp_all add: simps checkLeft_left checkLeft_nonleft split: option.splits)
  show "lastScrollStateRef (feed vp sc i (s, v) w) =
           (if v < prevScrollLeftRef w
            then Some \<lparr>scroller = sc, currentScrollLeft = v, prevScrollLeft = prevScrollLeftRef w\<rparr>
            else lastScrollStateRef w)"
    by (cases s; cases "v < prevScrollLeftRef w")
       (simp_all add: simps checkLeft_left checkLeft_nonleft split: option.splits)
  show "scrollLeftTimeoutRef (feed vp sc i (s, v) w) =
           (if v < prevScrollLeftRef w then Some (nextTimer w)
            else if truthy (scrollLeftTimeoutRef w) then None else scrollLeftTimeoutRef w)"
    by (cases s; cases "v < prevScrollLeftRef w")
       (simp_all add: simps checkLeft_left checkLeft_nonleft split: option.splits)
  show "timers (feed vp sc i (s, v) w) =
           (if truthy (scrollLeftTimeoutRef w)
            then filter (\<lambda>p. fst p \<noteq> the (scrollLeftTimeoutRef w)) (timers w) else timers w) @
           (if v < prevScrollLeftRef w then [(nextTimer w, event_of s sc)] else [])"
    by (cases s; cases "v < prevScrollLeftRef w")
       (simp_all add: simps checkLeft_left checkLeft_nonleft split: option.splits)
  show "nextTimer (feed vp sc i (s, v) w) =
           (if v < prevScrollLeftRef w then Suc (nextTimer w) else nextTimer w)"
    by (cases s; cases "v < prevScrollLeftRef w")
       (simp_all add: simps checkLeft_left checkLeft_nonleft split: option.splits)
  show "remaining (feed vp sc i (s, v) w) sc x = remaining w sc x"
    by (cases s) (simp_all add: remaining_def eqN eqP X_def w0 checkAndHandleRightEdge_eq
          checkLeft_frame frames split: option.splits)
  show "drags (feed vp sc i (s, v) w) = drags w"
    by (cases s) (simp_all add: simps split: option.splits)
qed

lemma example_world_fields:
  "prevScrollLeftRef example_world = 0"
  "hasReachedEndRef example_world = False"
  "scrollingLeftRef example_world = False"
  "wasScrollingLeftRef example_world = False"
  "lastScrollStateRef example_world = None"
  "scrollLeftTimeoutRef example_world = None"
  "timers example_world = []"
  "nextTimer example_world = 1"
  "calls example_world = []"
  "writes example_world = []"
  "scrollerRef example_world = Some 0"
  "leftScrollerRef example_world = Some 1"
  "syncingRef example_world = False"
  "scrollEvents example_world = []"
  "rafCallbacks example_world = 0"
  "windowListeners example_world = []"
  "remaining example_world 0 x = 9000 - x"
  "twelveMonthsPx example_viewport = 5760"
  by (simp_all add: example_world_def mounted_def example_element_def remaining_def
        twelveMonthsPx_def TWELVE_MONTHS_IN_DAYS_def pxPerDay_of_def example_viewport_def)

lemma checkLeft_frame2:
  "windowListeners (checkAndHandleLeftScroll vp cur prev sc ev w) = windowListeners w"
  "nextDrag (checkAndHandleLeftScroll vp cur prev sc ev w) = nextDrag w"
  "scrollEvents (checkAndHandleLeftScroll vp cur prev sc ev w) = scrollEvents w"
  "rafCallbacks (checkAndHandleLeftScroll vp cur prev sc ev w) = rafCallbacks w"
  by (cases "cur < prev"; simp add: checkLeft_left checkLeft_nonleft)+

lemma nativeScroll_env:
  "scrollerRef (nativeScroll vp sc v w) = scrollerRef w"
  "leftScrollerRef (nativeScroll vp sc v w) = leftScrollerRef w"
  "windowListeners (nativeScroll vp sc v w) = windowListeners w"
  "nextDrag (nativeScroll vp sc v w) = nextDrag w"
  "cursor (dom (nativeScroll vp sc v w) t) = cursor (dom w t)"
  by (simp_all add: nativeScroll_def handleRightScroll_def Let_def checkAndHandleRightEdge_eq
        checkLeft_frame checkLeft_frame2 syncVerticalScroll_def requestAnimationFrame_def
        set_scrollTop_def queueScrollEvent_def readsScrollLeft_def split: option.splits)

lemmas native_track = feed_track[where s = NativeScroll, simplified]

lemma at_edge_fields:
  "prevScrollLeftRef at_edge = 8600"
  "hasReachedEndRef at_edge = True"
  "scrollingLeftRef at_edge = False"
  "calls at_edge = [OnReachEnd]"
  "remaining at_edge 0 x = 9000 - x"
  "scrollerRef at_edge = Some 0"
  by (simp_all add: at_edge_def native_track nativeScroll_env example_world_fields)

lemma feed_drags: "drags (feed vp sc i (s, v) w) = drags w"
proof (cases s)
  case NativeScroll
  then show ?thesis by (simp add: native_track)
next
  case PointerDrag
  show ?thesis
  proof (cases "panning_drag w i")
    case False
    then have "feed vp sc i (PointerDrag, v) w = w" by (rule feed_idle)
    then show ?thesis using PointerDrag by simp
  next
    case True
    then obtain d where d: "drags w i = Some d" "panning d"
      by (auto simp: panning_drag_def split: option.splits)
    then have po: "pointer_on w i (drag_scroller d)" by (simp add: pointer_on_def)
    have "drags (feed vp (drag_scroller d) i (PointerDrag, v) w) = drags w"
      by (rule feed_track(12)) (use po in simp)
    then show ?thesis using PointerDrag by simp
  qed
qed

lemma pointer_on_feed: "pointer_on (feed vp sc i (s, v) w) j t = pointer_on w j t"
  by (simp add: pointer_on_def feed_drags)

lemmas pointer_track = feed_track[where s = PointerDrag, simplified]

lemma handlePointerDown_started:
  assumes "button e = 0 \<or> pointerType e = ''touch''" "scrollerRef w = Some sc"
  shows "drags (handlePointerDown e w) (nextDrag w) =
           Some \<lparr> startX = clientX e, startScrollLeft = scrollLeft (dom w sc), panning = True,
                  drag_scroller = sc, drag_el = pointer_target e,
                  prevCursor = cursor (dom w (pointer_target e)) \<rparr>"
    and "cursor (dom (handlePointerDown e w) (pointer_target e)) = ''grabbing''"
    and "windowListeners w = [] \<Longrightarrow> windowListeners (handlePointerDown e w) =
           [(''pointermove'', HandleMove (nextDrag w)), (''pointerup'', HandleEnd (nextDrag w)),
            (''pointercancel'', HandleEnd (nextDrag w))]"
  using assms
  by (auto simp: handlePointerDown_def Let_def addEventListener_def set_cursor_def)

lemma handlePointerDown_frame:
  "prevScrollLeftRef (handlePointerDown e w) = prevScrollLeftRef w"
  "hasReachedEndRef (handlePointerDown e w) = hasReachedEndRef w"
  "scrollingLeftRef (handlePointerDown e w) = scrollingLeftRef w"
  "wasScrollingLeftRef (handlePointerDown e w) = wasScrollingLeftRef w"
  "lastScrollStateRef (handlePointerDown e w) = lastScrollStateRef w"
  "scrollLeftTimeoutRef (handlePointerDown e w) = scrollLeftTimeoutRef w"
  "timers (handlePointerDown e w) = timers w"
  "nextTimer (handlePointerDown e w) = nextTimer w"
  "calls (handlePointerDown e w) = calls w"
  "writes (handlePointerDown e w) = writes w"
  "syncingRef (handlePointerDown e w) = syncingRef w"
  "remaining (handlePointerDown e w) sc x = remaining w sc x"
  by (simp_all add: handlePointerDown_def Let_def addEventListener_def set_cursor_def
        remaining_def split: option.splits)

lemma at_edge_env:
  "nextDrag at_edge = 0" "windowListeners at_edge = []"
  "cursor (dom at_edge 2) = []"
  by (simp_all add: at_edge_def nativeScroll_env example_world_def mounted_def
        example_element_def)

lemma grabbed_at_edge_fields:
  "pointer_on grabbed_at_edge 0 0"
  "prevScrollLeftRef grabbed_at_edge = 8600"
  "hasReachedEndRef grabbed_at_edge = True"
  "remaining grabbed_at_edge 0 x = 9000 - x"
proof -
  have "button pointer_down = 0 \<or> pointerType pointer_down = ''touch''"
    by (simp add: pointer_down_def)
  from handlePointerDown_started(1)[OF this at_edge_fields(6)]
  show "pointer_on grabbed_at_edge 0 0"
    by (simp add: pointer_on_def grabbed_at_edge_def at_edge_env)
qed (simp_all add: grabbed_at_edge_def handlePointerDown_frame at_edge_fields)

lemma fireTimer_pending:
  assumes "map_of (timers w) h = Some ev" "wasScrollingLeftRef w" "lastScrollStateRef w = Some l"
  shows "calls (fireTimer h w) =
           calls w @ [OnScrollLeft (currentScrollLeft l) (prevScrollLeft l) 0 (scroller l) ev,
                      OnStopScrollingLeft]"
    and "\<not> wasScrollingLeftRef (fireTimer h w)"
    and "timers (fireTimer h w) = filter (\<lambda>p. fst p \<noteq> h) (timers w)"
  using assms
  by (simp_all add: fireTimer_def scrollStopCallback_def clearTimeout_def emit_def)

lemma timers_ok_cleared:
  assumes "timers_ok w"
  shows "(if truthy (scrollLeftTimeoutRef w)
          then filter (\<lambda>p. fst p \<noteq> the (scrollLeftTimeoutRef w)) (timers w) else timers w) = []"
proof (cases "scrollLeftTimeoutRef w")
  case None
  then show ?thesis using timers_ok_None[OF assms] by simp
next
  case (Some h)
  then have "h \<noteq> 0" using assms by (auto simp: timers_ok_def)
  then show ?thesis using Some timers_ok_clear[OF assms Some] by simp
qed

lemma handleEnd_fields:
  assumes "drags w i = Some d"
  shows "calls (handleEnd i w) =
           calls w @ (case lastScrollStateRef w of
                        None \<Rightarrow> []
                      | Some l \<Rightarrow>
                          if wasScrollingLeftRef w
                          then [OnScrollLeft (currentScrollLeft l) (prevScrollLeft l) 0 (scroller l)
                                  (SyntheticEvent (scroller l)), OnStopScrollingLeft]
                          else [])"
    and "wasScrollingLeftRef (handleEnd i w) = (wasScrollingLeftRef w \<and> lastScrollStateRef w = None)"
    and "timers (handleEnd i w) = timers w"
    and "scrollLeftTimeoutRef (handleEnd i w) = scrollLeftTimeoutRef w"
    and "drags (handleEnd i w) = (drags w)(i := Some (d\<lparr>panning := False\<rparr>))"
    and "cursor (dom (handleEnd i w) (drag_el d)) = prevCursor d"
    and "windowListeners (handleEnd i w) =
           filter (\<lambda>p. p \<noteq> (''pointercancel'', HandleEnd i))
             (filter (\<lambda>p. p \<noteq> (''pointerup'', HandleEnd i))
                (filter (\<lambda>p. p \<noteq> (''pointermove'', HandleMove i)) (windowListeners w)))"
    and "scrollingLeftRef (handleEnd i w) = scrollingLeftRef w"
    and "prevScrollLeftRef (handleEnd i w) = prevScrollLeftRef w"
    and "lastScrollStateRef (handleEnd i w) = lastScrollStateRef w"
  using assms
  by (simp_all add: handleEnd_def Let_def set_cursor_def emit_def removeEventListener_def
        split: option.splits)

lemma dispatch_single:
  assumes "windowListeners w = drag_listeners i"
  shows "dispatchWindow vp ''pointermove'' x w = handleMove vp i x w"
    and "dispatchWindow vp ''pointerup'' x w = handleEnd i w"
    and "dispatchWindow vp ''pointercancel'' x w = handleEnd i w"
  using assms by (simp_all add: dispatchWindow_def drag_listeners_def)

lemma fireTimer_idle: "\<not> wasScrollingLeftRef w \<Longrightarrow> calls (fireTimer h w) = calls w"
  by (simp add: fireTimer_def scrollStopCallback_def clearTimeout_def split: option.splits)

lemma nativeScroll_dom_scrollLeft: "scrollLeft (dom (nativeScroll vp sc v w) sc) = v"
  by (simp add: nativeScroll_def handleRightScroll_def Let_def checkAndHandleRightEdge_eq
        checkLeft_frame syncVerticalScroll_def requestAnimationFrame_def
        set_scrollTop_def queueScrollEvent_def readsScrollLeft_def split: option.splits)

lemma handleMove_as_pointerScroll:
  "drags w i = Some d \<Longrightarrow>
     handleMove vp i x w = pointerScroll vp i (startScrollLeft d - (x - startX d)) w"
  by (simp add: pointerScroll_def)

lemma pointerScroll_env:
  "windowListeners (pointerScroll vp i v w) = windowListeners w"
  "cursor (dom (pointerScroll vp i v w) t) = cursor (dom w t)"
  by (simp_all add: pointerScroll_def handleMove_def Let_def checkAndHandleRightEdge_eq
        checkLeft_frame checkLeft_frame2 set_scrollLeft_def queueScrollEvent_def
        split: option.splits)

lemma example_world_env:
  "nextDrag example_world = 0"
  "cursor (dom example_world t) = []"
  "scrollTop (dom example_world t) = 0"
  "scrollHeight (dom example_world t) = 2000"
  "clientHeight (dom example_world t) = 500"
  by (simp_all add: example_world_def mounted_def example_element_def)

lemma scrolled_to_1000_env:
  "scrollerRef scrolled_to_1000 = Some 0"
  "nextDrag scrolled_to_1000 = 0"
  "windowListeners scrolled_to_1000 = []"
  "cursor (dom scrolled_to_1000 2) = []"
  "scrollLeft (dom scrolled_to_1000 0) = 1000"
  "timers scrolled_to_1000 = []"
  "scrollLeftTimeoutRef scrolled_to_1000 = None"
  "nextTimer scrolled_to_1000 = 1"
  "remaining scrolled_to_1000 0 x = 9000 - x"
  "hasReachedEndRef scrolled_to_1000 = False"
  by (simp_all add: scrolled_to_1000_def nativeScroll_env nativeScroll_dom_scrollLeft
        native_track example_world_fields example_world_env)

lemma grabbed_fields:
  "drags grabbed 0 = Some \<lparr> startX = 100, startScrollLeft = 1000, panning = True,
                             drag_scroller = 0, drag_el = 2, prevCursor = [] \<rparr>"
  "windowListeners grabbed = drag_listeners 0"
  "pointer_on grabbed 0 0"
  "prevScrollLeftRef grabbed = 1000"
  "scrollingLeftRef grabbed = False"
  "timers grabbed = []"
  "scrollLeftTimeoutRef grabbed = None"
  "nextTimer grabbed = 1"
  "calls grabbed = []"
  "remaining grabbed 0 x = 9000 - x"
  "hasReachedEndRef grabbed = False"
proof -
  have b: "button pointer_down = 0 \<or> pointerType pointer_down = ''touch''"
    by (simp add: pointer_down_def)
  note st = handlePointerDown_started[OF b scrolled_to_1000_env(1)]
  show d: "drags grabbed 0 = Some \<lparr> startX = 100, startScrollLeft = 1000, panning = True,
                             drag_scroller = 0, drag_el = 2, prevCursor = [] \<rparr>"
    using st(1) by (simp add: grabbed_def scrolled_to_1000_env pointer_down_def)
  show "windowListeners grabbed = drag_listeners 0"
    using st(3) by (simp add: grabbed_def scrolled_to_1000_env drag_listeners_def)
  show "pointer_on grabbed 0 0" by (simp add: pointer_on_def d)
qed (simp_all add: grabbed_def handlePointerDown_frame scrolled_to_1000_fields
       scrolled_to_1000_env)

lemma dragged_left_eq: "dragged_left = pointerScroll example_viewport 0 900 grabbed"
  by (simp add: dragged_left_def dispatch_single(1)[OF grabbed_fields(2)]
        handleMove_as_pointerScroll[OF grabbed_fields(1)])

lemma dragged_left_fields:
  "drags dragged_left 0 = Some \<lparr> startX = 100, startScrollLeft = 1000, panning = True,
                             drag_scroller = 0, drag_el = 2, prevCursor = [] \<rparr>"
  "windowListeners dragged_left = drag_listeners 0"
  "wasScrollingLeftRef dragged_left"
  "lastScrollStateRef dragged_left =
     Some \<lparr>scroller = 0, currentScrollLeft = 900, prevScrollLeft = 1000\<rparr>"
  "timers dragged_left = [(1, SyntheticEvent 0)]"
  "scrollLeftTimeoutRef dragged_left = Some 1"
  "calls dragged_left = [OnScrollLeft 900 1000 100 0 (SyntheticEvent 0), OnReachStart]"
  by (simp_all add: dragged_left_eq pointer_track[OF grabbed_fields(3)] pointerScroll_env
        grabbed_fields example_world_fields del: One_nat_def)

lemma map_fst_filter:
  "map fst (filter (\<lambda>p. fst p \<noteq> h) xs) = filter (\<lambda>k. k \<noteq> h) (map fst xs)"
  by (induction xs) auto

lemma fireTimer_track:
  "wasScrollingLeftRef (fireTimer h w) =
     (wasScrollingLeftRef w \<and> (h \<notin> set (map fst (timers w)) \<or> lastScrollStateRef w = None))"
  "map fst (timers (fireTimer h w)) = filter (\<lambda>k. k \<noteq> h) (map fst (timers w))"
  "map args_of (calls (fireTimer h w)) =
     map args_of (calls w) @
     (if h \<in> set (map fst (timers w)) \<and> wasScrollingLeftRef w
      then (case lastScrollStateRef w of
              None \<Rightarrow> []
            | Some l \<Rightarrow> [ScrollLeftArgs (currentScrollLeft l) (prevScrollLeft l) 0 (scroller l),
                         StopScrollingLeftCall])
      else [])"
proof -
  have none: "map_of (timers w) h = None \<longleftrightarrow> h \<notin> set (map fst (timers w))"
    by (simp add: map_of_eq_None_iff)
  have nf: "h \<notin> set (map fst (timers w)) \<Longrightarrow> filter (\<lambda>k. k \<noteq> h) (map fst (timers w)) = map fst (timers w)"
    by (induction "timers w") (auto simp: filter_id_conv)
  show "wasScrollingLeftRef (fireTimer h w) =
     (wasScrollingLeftRef w \<and> (h \<notin> set (map fst (timers w)) \<or> lastScrollStateRef w = None))"
    using none
    by (cases "map_of (timers w) h")
       (auto simp: fireTimer_def scrollStopCallback_def clearTimeout_def emit_def
          split: option.splits)
  show "map fst (timers (fireTimer h w)) = filter (\<lambda>k. k \<noteq> h) (map fst (timers w))"
    using none nf
    by (cases "map_of (timers w) h")
       (auto simp: fireTimer_def scrollStopCallback_def clearTimeout_def emit_def map_fst_filter
          split: option.splits)
  show "map args_of (calls (fireTimer h w)) =
     map args_of (calls w) @
     (if h \<in> set (map fst (timers w)) \<and> wasScrollingLeftRef w
      then (case lastScrollStateRef w of
              None \<Rightarrow> []
            | Some l \<Rightarrow> [ScrollLeftArgs (currentScrollLeft l) (prevScrollLeft l) 0 (scroller l),
                         StopScrollingLeftCall])
      else [])"
    using none
    by (cases "map_of (timers w) h")
       (auto simp: fireTimer_def scrollStopCallback_def clearTimeout_def emit_def
          split: option.splits)
qed

lemma remaining_shift: "remaining w sc x = remaining w sc 0 - x"
  by (simp add: remaining_def)

lemma same_tracking_step:
  assumes "same_tracking sc a b" "pointer_on b i sc"
  shows "same_tracking sc (step vp sc i (through NativeScroll x) a)
           (step vp sc i (through PointerDrag x) b)"
proof (cases x)
  case (Position s v)
  note n = native_track and p = pointer_track[OF assms(2), of vp v]
  have r: "remaining a sc y = remaining b sc y" for y
    using assms(1) remaining_shift[of a sc y] remaining_shift[of b sc y]
    by (simp add: same_tracking_def)
  show ?thesis
    using assms(1) unfolding same_tracking_def Position through.simps step.simps feed.simps
    by (simp add: n p r map_fst_filter)
next
  case (TimerFires h)
  show ?thesis
    using assms(1) unfolding same_tracking_def TimerFires through.simps step.simps
    by (simp add: fireTimer_track fireTimer_frame remaining_def)
qed

lemma remaining_fireTimer: "remaining (fireTimer h w) sc x = remaining w sc x"
  by (simp add: remaining_def fireTimer_frame)

lemma pointer_on_step: "pointer_on (step vp sc i x w) j t = pointer_on w j t"
proof (cases x)
  case (Position s v)
  then show ?thesis by (simp add: pointer_on_feed)
next
  case (TimerFires h)
  then show ?thesis by (simp add: pointer_on_def fireTimer_frame)
qed

lemma same_tracking_run:
  assumes "same_tracking sc a b" "pointer_on b i sc"
  shows "same_tracking sc (run vp sc i (map (through NativeScroll) xs) a)
           (run vp sc i (map (through PointerDrag) xs) b)"
  using assms
proof (induction xs arbitrary: a b)
  case Nil
  then show ?case by simp
next
  case (Cons x xs)
  have "same_tracking sc (step vp sc i (through NativeScroll x) a)
           (step vp sc i (through PointerDrag x) b)"
    using Cons.prems by (rule same_tracking_step)
  moreover have "pointer_on (step vp sc i (through PointerDrag x) b) i sc"
    using Cons.prems(2) by (simp only: pointer_on_step)
  ultimately show ?case
    using Cons.IH by simp
qed

lemma checkLeft_vertical:
  "syncingRef (checkAndHandleLeftScroll vp cur prev sc ev w) = syncingRef w"
  "writes (checkAndHandleLeftScroll vp cur prev sc ev w) = writes w"
  "scrollEvents (checkAndHandleLeftScroll vp cur prev sc ev w) = scrollEvents w"
  "rafCallbacks (checkAndHandleLeftScroll vp cur prev sc ev w) = rafCallbacks w"
  "dom (checkAndHandleLeftScroll vp cur prev sc ev w) = dom w"
  "scrollerRef (checkAndHandleLeftScroll vp cur prev sc ev w) = scrollerRef w"
  "leftScrollerRef (checkAndHandleLeftScroll vp cur prev sc ev w) = leftScrollerRef w"
  by (cases "cur < prev"; simp add: checkLeft_left checkLeft_nonleft)+

lemma handleRightScroll_as_sync:
  "\<exists>X. handleRightScroll vp e w =
          (case leftScrollerRef w of None \<Rightarrow> X
           | Some left \<Rightarrow> syncVerticalScroll (currentTarget e) left X) \<and>
        syncingRef X = syncingRef w \<and> writes X = writes w \<and>
        scrollEvents X = scrollEvents w \<and> rafCallbacks X = rafCallbacks w \<and>
        dom X = dom w \<and> scrollerRef X = scrollerRef w \<and>
        leftScrollerRef X = leftScrollerRef w"
  by (rule exI[of _ "(checkAndHandleRightEdge (scrollLeft (dom w (currentTarget e)))
         (prevScrollLeftRef w) (currentTarget e)
         (checkAndHandleLeftScroll vp (scrollLeft (dom w (currentTarget e)))
            (prevScrollLeftRef w) (currentTarget e) e
            (w\<lparr>state_scrollLeft := scrollLeft (dom w (currentTarget e))\<rparr>)))
         \<lparr>prevScrollLeftRef := scrollLeft (dom w (currentTarget e))\<rparr>"])
     (simp add: handleRightScroll_def Let_def checkAndHandleRightEdge_eq checkLeft_vertical
        cong: option.case_cong)

lemma sync_guarded: "syncingRef w \<Longrightarrow> syncVerticalScroll a b w = w"
  by (simp add: syncVerticalScroll_def)

lemma sync_open:
  assumes "\<not> syncingRef w"
  shows "syncingRef (syncVerticalScroll a b w)"
    and "writes (syncVerticalScroll a b w) = writes w @ [SetScrollTop b (scrollTop (dom w a))]"
    and "rafCallbacks (syncVerticalScroll a b w) = Suc (rafCallbacks w)"
    and "scrollEvents w = [] \<Longrightarrow> length (scrollEvents (syncVerticalScroll a b w)) \<le> 1"
  using assms
  by (simp_all add: syncVerticalScroll_def requestAnimationFrame_def set_scrollTop_def
        queueScrollEvent_def Let_def)

lemma dispatch_guarded:
  assumes "syncingRef u"
  shows "syncingRef (dispatchScroll vp t u)"
    and "writes (dispatchScroll vp t u) = writes u"
    and "scrollEvents (dispatchScroll vp t u) = scrollEvents u"
    and "rafCallbacks (dispatchScroll vp t u) = rafCallbacks u"
proof -
  obtain X where X: "handleRightScroll vp (NativeEvent t) u =
          (case leftScrollerRef u of None \<Rightarrow> X
           | Some left \<Rightarrow> syncVerticalScroll (currentTarget (NativeEvent t)) left X)"
    "syncingRef X = syncingRef u" "writes X = writes u"
    "scrollEvents X = scrollEvents u" "rafCallbacks X = rafCallbacks u"
    using handleRightScroll_as_sync[of vp "NativeEvent t" u] by blast
  have r: "handleRightScroll vp (NativeEvent t) u = X"
    using X(1,2) assms by (simp add: sync_guarded split: option.splits)
  have l: "handleLeftScroll (NativeEvent t) u = u"
    using assms by (simp add: handleLeftScroll_def sync_guarded split: option.splits)
  show "syncingRef (dispatchScroll vp t u)"
    using assms by (simp add: dispatchScroll_def r l X)
  show "writes (dispatchScroll vp t u) = writes u"
    by (simp add: dispatchScroll_def r l X)
  show "scrollEvents (dispatchScroll vp t u) = scrollEvents u"
    by (simp add: dispatchScroll_def r l X)
  show "rafCallbacks (dispatchScroll vp t u) = rafCallbacks u"
    by (simp add: dispatchScroll_def r l X)
qed

lemma drain_guarded:
  assumes "syncingRef u" "length (scrollEvents u) \<le> k"
  shows "\<exists>u'. drainScrollEvents k vp u = Some u' \<and> writes u' = writes u \<and> syncingRef u' \<and>
              scrollEvents u' = [] \<and> rafCallbacks u' = rafCallbacks u"
  using assms
proof (induction k arbitrary: u)
  case 0
  then show ?case by simp
next
  case (Suc k)
  show ?case
  proof (cases "scrollEvents u")
    case Nil
    then show ?thesis using Suc.prems by simp
  next
    case (Cons t ts)
    let ?u0 = "u\<lparr>scrollEvents := ts\<rparr>"
    let ?u1 = "dispatchScroll vp t ?u0"
    have g: "syncingRef ?u0" using Suc.prems(1) by simp
    note d = dispatch_guarded[OF g, of vp t]
    have "length (scrollEvents ?u1) \<le> k"
      using Suc.prems(2) Cons by (simp add: d(3))
    then obtain u' where "drainScrollEvents k vp ?u1 = Some u'" "writes u' = writes ?u1"
      "syncingRef u'" "scrollEvents u' = []" "rafCallbacks u' = rafCallbacks ?u1"
      using Suc.IH[OF d(1)] by blast
    then show ?thesis using Cons by (simp add: d)
  qed
qed

lemma guard_kept:
  assumes "syncingRef u"
  shows "syncingRef (handleLeftScroll e u)"
    and "syncingRef (handleRightScroll vp e u)"
    and "syncingRef (fireTimer h u)"
    and "syncingRef (handleMove vp i x u)"
    and "syncingRef (handleEnd i u)"
    and "syncingRef (handlePointerDown pe u)"
proof -
  show "syncingRef (handleLeftScroll e u)"
    using assms by (simp add: handleLeftScroll_def sync_guarded split: option.splits)
  obtain X where "handleRightScroll vp e u =
          (case leftScrollerRef u of None \<Rightarrow> X
           | Some left \<Rightarrow> syncVerticalScroll (currentTarget e) left X)"
    "syncingRef X = syncingRef u"
    using handleRightScroll_as_sync[of vp e u] by blast
  then show "syncingRef (handleRightScroll vp e u)"
    using assms by (simp add: sync_guarded split: option.splits)
  show "syncingRef (fireTimer h u)"
    using assms
    by (simp add: fireTimer_def scrollStopCallback_def clearTimeout_def emit_def
          split: option.splits)
  show "syncingRef (handleMove vp i x u)"
    using assms
    by (simp add: handleMove_def Let_def checkAndHandleRightEdge_eq checkLeft_vertical
          set_scrollLeft_frame split: option.splits)
  show "syncingRef (handleEnd i u)"
    using assms
    by (simp add: handleEnd_def Let_def set_cursor_def emit_def removeEventListener_def
          split: option.splits)
  show "syncingRef (handlePointerDown pe u)"
    using assms by (simp add: handlePointerDown_frame)
qed

lemma handleMove_dom_scrollLeft:
  assumes "drags w i = Some d" "panning d"
  shows "scrollLeft (dom (handleMove vp i x w) (drag_scroller d)) =
           clampScroll (startScrollLeft d - (x - startX d))
             (scrollWidth (dom w (drag_scroller d)) - clientWidth (dom w (drag_scroller d)))"
  using assms
  by (simp add: handleMove_def Let_def checkAndHandleRightEdge_eq checkLeft_vertical
        set_scrollLeft_def queueScrollEvent_def)

lemma handleRightScroll_published:
  "state_scrollLeft (handleRightScroll vp e w) = scrollLeft (dom w (currentTarget e))"
  by (simp add: handleRightScroll_def Let_def checkAndHandleRightEdge_eq checkLeft_frame
        frames split: option.splits)

text \<open>\<open>timers_ok\<close> holds after mounting and is kept by every transition.\<close>

lemma timers_ok_mounted: "timers_ok (mounted d sc lf)"
  by (simp add: timers_ok_def mounted_def)

lemma timers_ok_tracked:
  assumes "timers_ok w"
    and "timers w' =
           (if truthy (scrollLeftTimeoutRef w)
            then filter (\<lambda>p. fst p \<noteq> the (scrollLeftTimeoutRef w)) (timers w) else timers w) @
           (if left then [(nextTimer w, ev)] else [])"
    and "scrollLeftTimeoutRef w' =
           (if left then Some (nextTimer w)
            else if truthy (scrollLeftTimeoutRef w) then None else scrollLeftTimeoutRef w)"
    and "nextTimer w' = (if left then Suc (nextTimer w) else nextTimer w)"
  shows "timers_ok w'"
proof -
  have c: "(if truthy (scrollLeftTimeoutRef w)
            then filter (\<lambda>p. fst p \<noteq> the (scrollLeftTimeoutRef w)) (timers w) else timers w) = []"
    by (rule timers_ok_cleared[OF assms(1)])
  have "0 < nextTimer w" "scrollLeftTimeoutRef w \<noteq> Some 0"
    using assms(1) by (simp_all add: timers_ok_def)
  then show ?thesis
    unfolding timers_ok_def assms(2,3,4) c by (cases "scrollLeftTimeoutRef w") auto
qed

lemma timers_ok_feed:
  assumes "timers_ok w"
  shows "timers_ok (feed vp sc i (s, v) w)"
proof (cases s)
  case NativeScroll
  show ?thesis
    unfolding NativeScroll feed.simps
    by (rule timers_ok_tracked[OF assms native_track(9) native_track(8) native_track(10)])
next
  case PointerDrag
  show ?thesis
  proof (cases "panning_drag w i")
    case False
    then have "feed vp sc i (PointerDrag, v) w = w" by (rule feed_idle)
    then show ?thesis using assms PointerDrag by simp
  next
    case True
    then obtain d where d: "drags w i = Some d" "panning d"
      by (auto simp: panning_drag_def split: option.splits)
    then have po: "pointer_on w i (drag_scroller d)" by (simp add: pointer_on_def)
    show ?thesis
      unfolding PointerDrag feed.simps
      by (rule timers_ok_tracked[OF assms pointer_track(9)[OF po] pointer_track(8)[OF po]
            pointer_track(10)[OF po]])
  qed
qed

lemma timers_ok_fireTimer:
  assumes "timers_ok w"
  shows "timers_ok (fireTimer h w)"
proof -
  have "timers (fireTimer h w) = timers w \<or>
        timers (fireTimer h w) = filter (\<lambda>p. fst p \<noteq> h) (timers w)"
    by (auto simp: fireTimer_def scrollStopCallback_def clearTimeout_def emit_def
          split: option.splits)
  then show ?thesis
    using assms
    by (auto simp: timers_ok_def fireTimer_frame list_all_iff distinct_map_filter)
qed

lemma timers_ok_run:
  assumes "timers_ok w"
  shows "timers_ok (run vp sc i xs w)"
  using assms
proof (induction xs arbitrary: w)
  case Nil
  then show ?case by simp
next
  case (Cons x xs)
  have "timers_ok (step vp sc i x w)"
    using Cons.prems by (cases x) (simp_all add: timers_ok_feed timers_ok_fireTimer)
  then show ?case using Cons.IH by simp
qed

lemma timers_ok_pointer:
  assumes "timers_ok w"
  shows "timers_ok (handlePointerDown e w)"
    and "timers_ok (handleEnd i w)"
proof -
  show "timers_ok (handlePointerDown e w)"
    using assms by (simp add: timers_ok_def handlePointerDown_frame)
  show "timers_ok (handleEnd i w)"
    using assms
    by (simp add: timers_ok_def handleEnd_def Let_def set_cursor_def emit_def
          removeEventListener_def split: option.splits)
qed

text \<open>Which transitions touch \<^verbatim>\<open>scrollingLeftRef\<close>.\<close>

lemma scrollingLeft_kept:
  "scrollingLeftRef (fireTimer h u) = scrollingLeftRef u"
  "scrollingLeftRef (handleEnd j u) = scrollingLeftRef u"
  "scrollingLeftRef (handlePointerDown pe u) = scrollingLeftRef u"
  "scrollingLeftRef (handleLeftScroll e u) = scrollingLeftRef u"
  "scrollingLeftRef (animationFrame u) = scrollingLeftRef u"
  "scrollingLeftRef (scrollToTask tz str tasks vp tid u) = scrollingLeftRef u"
proof -
  show "scrollingLeftRef (fireTimer h u) = scrollingLeftRef u" by (rule fireTimer_frame(2))
  show "scrollingLeftRef (handleEnd j u) = scrollingLeftRef u"
    by (simp add: handleEnd_def Let_def set_cursor_def emit_def removeEventListener_def
          split: option.splits)
  show "scrollingLeftRef (handlePointerDown pe u) = scrollingLeftRef u"
    by (rule handlePointerDown_frame(3))
  show "scrollingLeftRef (handleLeftScroll e u) = scrollingLeftRef u"
    by (simp add: handleLeftScroll_def Let_def syncVerticalScroll_frame split: option.splits)
  show "scrollingLeftRef (animationFrame u) = scrollingLeftRef u"
    by (simp add: animationFrame_def)
  show "scrollingLeftRef (scrollToTask tz str tasks vp tid u) = scrollingLeftRef u"
    by (simp add: scrollToTask_def Let_def split: option.splits)
qed

lemma flag_set_update:
  assumes "scrollingLeftRef u"
  shows "OnReachStart \<notin> set (new_calls u (feed vp sc j (s, x) u))"
    and "x < prevScrollLeftRef u \<Longrightarrow> scrollingLeftRef (feed vp sc j (s, x) u)"
proof -
  have "OnReachStart \<notin> set (new_calls u (feed vp sc j (s, x) u)) \<and>
        (x < prevScrollLeftRef u \<longrightarrow> scrollingLeftRef (feed vp sc j (s, x) u))"
  proof (cases s)
    case NativeScroll
    then show ?thesis
      using assms feed_track(4,5)[of NativeScroll u j sc vp x] by (simp add: new_calls_def)
  next
    case PointerDrag
    show ?thesis
    proof (cases "panning_drag u j")
      case False
      then show ?thesis
        using assms PointerDrag feed_idle[OF False, of vp sc x] by (simp add: new_calls_def)
    next
      case True
      then obtain d where d: "drags u j = Some d" "panning d"
        by (auto simp: panning_drag_def split: option.splits)
      then have po: "PointerDrag = PointerDrag \<longrightarrow> pointer_on u j (drag_scroller d)"
        by (simp add: pointer_on_def)
      show ?thesis
        using assms PointerDrag feed_track(4,5)[OF po, of vp x] by (simp add: new_calls_def)
    qed
  qed
  then show "OnReachStart \<notin> set (new_calls u (feed vp sc j (s, x) u))"
    and "x < prevScrollLeftRef u \<Longrightarrow> scrollingLeftRef (feed vp sc j (s, x) u)"
    by simp_all
qed

text \<open>In a time zone with a fixed offset, a date a whole number of 24-hour days after another
  is that many calendar days later.\<close>

lemma differenceInCalendarDays_fixed_offset:
  "differenceInCalendarDays (\<lambda>t. k) (Date (b + n * MILLISECONDS_IN_DAY)) (Date b) = Some n"
  by (simp add: calendarDay_def MILLISECONDS_IN_DAY_def add.assoc add.left_commute)

section \<open>Reset on rightward or stationary motion\<close>

text \<open>
  C7.  A horizontal-position update whose new scroll-left is greater than or equal to the
  recorded previous scroll-left, through either input path, leaves no stop timer pending,
  sets \<^verbatim>\<open>scrollLeftTimeoutRef\<close> to null, clears \<^verbatim>\<open>scrollingLeftRef\<close> (and
  \<^verbatim>\<open>wasScrollingLeftRef\<close>), and calls none of \<^verbatim>\<open>onScrollLeft\<close>, \<^verbatim>\<open>onReachStart\<close>,
  \<^verbatim>\<open>onStopScrollingLeft\<close>.  The state is one the hook can be in: \<open>timers_ok\<close> holds after
  mounting and is kept by every handler and timer firing.
\<close>

theorem nonleftward_update_resets:
  assumes "timers_ok w" and "prevScrollLeftRef w \<le> v"
    and "s = PointerDrag \<longrightarrow> panning_drag w i"
  shows "timers (feed vp sc i (s, v) w) = [] \<and>
         scrollLeftTimeoutRef (feed vp sc i (s, v) w) = None \<and>
         \<not> scrollingLeftRef (feed vp sc i (s, v) w) \<and>
         \<not> wasScrollingLeftRef (feed vp sc i (s, v) w) \<and>
         OnReachStart \<notin> set (new_calls w (feed vp sc i (s, v) w)) \<and>
         OnStopScrollingLeft \<notin> set (new_calls w (feed vp sc i (s, v) w)) \<and>
         (\<forall>c p d t e. OnScrollLeft c p d t e \<notin> set (new_calls w (feed vp sc i (s, v) w)))"
proof -
  have "\<forall>c \<in> set (new_calls w (feed vp sc i (s, v) w)). c = OnReachEnd"
    by (rule feed_nonleft(5)[OF assms])
  then have "OnReachStart \<notin> set (new_calls w (feed vp sc i (s, v) w))"
    and "OnStopScrollingLeft \<notin> set (new_calls w (feed vp sc i (s, v) w))"
    and "\<forall>c p d t e. OnScrollLeft c p d t e \<notin> set (new_calls w (feed vp sc i (s, v) w))"
    by blast+
  then show ?thesis
    using feed_nonleft(1-4)[OF assms] by simp
qed

text \<open>C7 at the example board: a leftward episode is open with its timer pending, and a
  native scroll event at 950 (rightward from 900) resets the tracking state.\<close>

theorem nonleftward_update_resets_witness:
  "timers_ok scrolled_left \<and> prevScrollLeftRef scrolled_left \<le> 950 \<and>
   timers scrolled_left \<noteq> [] \<and>
   timers (feed example_viewport 0 0 (NativeScroll, 950) scrolled_left) = [] \<and>
   scrollLeftTimeoutRef (feed example_viewport 0 0 (NativeScroll, 950) scrolled_left) = None \<and>
   \<not> scrollingLeftRef (feed example_viewport 0 0 (NativeScroll, 950) scrolled_left) \<and>
   OnReachStart \<notin> set (new_calls scrolled_left (feed example_viewport 0 0 (NativeScroll, 950) scrolled_left))"
proof -
  have ok: "timers_ok scrolled_left"
    by (simp add: timers_ok_def scrolled_left_fields)
  have le: "prevScrollLeftRef scrolled_left \<le> 950"
    by (simp add: scrolled_left_fields)
  show ?thesis
    using ok le nonleftward_update_resets[OF ok le, of NativeScroll 0 example_viewport 0]
    by (simp add: scrolled_left_fields)
qed

section \<open>One \<^verbatim>\<open>onReachStart\<close> per leftward run\<close>

text \<open>
  C1.  Take a run of horizontal-position updates, through either input path and with the stop
  timer free to fire in between, that starts while \<^verbatim>\<open>scrollingLeftRef\<close> is clear (as it is after
  mounting and after every rightward or stationary update), in which every new scroll-left is
  strictly below the one before and the first is below the left threshold of 360 days times
  \<^verbatim>\<open>pxPerDay\<close>.  Then \<^verbatim>\<open>onReachStart\<close> is called exactly once by the first update, by none of
  the later ones, and so exactly once in the whole run.
\<close>

theorem single_reachStart_per_run:
  assumes "\<not> scrollingLeftRef w"
    and "s = PointerDrag \<longrightarrow> panning_drag w i"
    and "v < prevScrollLeftRef w"
    and "v < twelveMonthsPx vp"
    and "descending v (positions xs)"
  shows "count_list (new_calls w (step vp sc i (Position s v) w)) OnReachStart = 1 \<and>
         OnReachStart \<notin> set (new_calls (step vp sc i (Position s v) w)
                                 (run vp sc i xs (step vp sc i (Position s v) w))) \<and>
         count_list (new_calls w (run vp sc i (Position s v # xs) w)) OnReachStart = 1"
proof -
  let ?w1 = "step vp sc i (Position s v) w"
  have one: "count_list (new_calls w ?w1) OnReachStart = 1"
    using feed_left(1)[OF assms(3,2), of vp sc] assms(1,4) by simp
  have "scrollingLeftRef ?w1" "prevScrollLeftRef ?w1 = v"
    using feed_left(2,3)[OF assms(3,2), of vp sc] assms(4) by simp_all
  then have none: "OnReachStart \<notin> set (new_calls ?w1 (run vp sc i xs ?w1))"
    using assms(5) run_no_reachStart[of ?w1 xs vp sc i] by simp
  then have "count_list (new_calls ?w1 (run vp sc i xs ?w1)) OnReachStart = 0"
    by (simp add: count_list_0_iff)
  then have "count_list (new_calls w (run vp sc i (Position s v # xs) w)) OnReachStart = 1"
    unfolding run.simps new_calls_run_step[of w vp sc i xs "Position s v"]
    using one by simp
  then show ?thesis using one none by simp
qed


text \<open>C1 at the example board: the values 1000, 900, 800, 700 fed from the mounted state
  (threshold 5760) give exactly one \<^verbatim>\<open>onReachStart\<close> call.\<close>

theorem single_reachStart_per_run_witness:
  "\<not> scrollingLeftRef scrolled_to_1000 \<and>
   900 < prevScrollLeftRef scrolled_to_1000 \<and>
   900 < twelveMonthsPx example_viewport \<and>
   descending 900 (positions [Position NativeScroll 800, Position NativeScroll 700]) \<and>
   count_list
     (calls (run example_viewport 0 0
        [Position NativeScroll 1000, Position NativeScroll 900, Position NativeScroll 800,
         Position NativeScroll 700] example_world)) OnReachStart = 1"
proof -
  let ?xs = "[Position NativeScroll 800, Position NativeScroll 700]"
  let ?r = "run example_viewport 0 0 (Position NativeScroll 900 # ?xs) scrolled_to_1000"
  have h: "\<not> scrollingLeftRef scrolled_to_1000" "900 < prevScrollLeftRef scrolled_to_1000"
    by (simp_all add: scrolled_to_1000_fields)
  have t: "900 < twelveMonthsPx example_viewport"
    by (simp add: twelveMonthsPx_def TWELVE_MONTHS_IN_DAYS_def pxPerDay_of_def example_viewport_def)
  have d: "descending 900 (positions ?xs)" by simp
  have "count_list (new_calls scrolled_to_1000 ?r) OnReachStart = 1"
    using single_reachStart_per_run[of scrolled_to_1000 NativeScroll 0 900 example_viewport ?xs 0]
      h t d by simp
  moreover have "calls ?r = calls scrolled_to_1000 @ new_calls scrolled_to_1000 ?r"
    by (rule calls_new_calls[OF run_calls_ex])
  ultimately have "count_list (calls ?r) OnReachStart = 1"
    by (simp add: scrolled_to_1000_fields)
  moreover have "run example_viewport 0 0
        [Position NativeScroll 1000, Position NativeScroll 900, Position NativeScroll 800,
         Position NativeScroll 700] example_world = ?r"
    by (simp add: scrolled_to_1000_def)
  ultimately show ?thesis using h t d by simp
qed

section \<open>The right-edge latch\<close>

text \<open>
  C3 (amended).  For two consecutive horizontal-position updates, through either input path,
  with no change of the scroller's content width or visible width in between, the second
  update calls \<^verbatim>\<open>onReachEnd\<close> exactly when the remaining right buffer (content width minus
  visible width minus scroll-left) was above 480 at the first update and is at most 480 at
  the second; and it calls it at most once.  So repeated updates within the threshold never
  fire again, and going back above it re-arms the call.
\<close>

theorem reachEnd_on_crossing:
  assumes "s1 = PointerDrag \<or> s2 = PointerDrag \<longrightarrow> pointer_on w i sc"
  shows "(OnReachEnd \<in> set (new_calls (feed vp sc i (s1, v1) w)
                                 (feed vp sc i (s2, v2) (feed vp sc i (s1, v1) w)))) =
           (480 < remaining (feed vp sc i (s1, v1) w) sc v1 \<and>
            remaining (feed vp sc i (s2, v2) (feed vp sc i (s1, v1) w)) sc v2 \<le> 480) \<and>
         count_list (new_calls (feed vp sc i (s1, v1) w)
                       (feed vp sc i (s2, v2) (feed vp sc i (s1, v1) w))) OnReachEnd \<le> 1"
proof -
  let ?w1 = "feed vp sc i (s1, v1) w"
  have ok1: "s1 = PointerDrag \<longrightarrow> pointer_on w i sc" using assms by simp
  have "pointer_on ?w1 i sc = pointer_on w i sc"
    by (simp add: pointer_on_def feed_track(12)[OF ok1])
  then have ok2: "s2 = PointerDrag \<longrightarrow> pointer_on ?w1 i sc" using assms by simp
  note t1 = feed_track[OF ok1, of vp v1] and t2 = feed_track[OF ok2, of vp v2]
  show ?thesis
    by (auto simp: new_calls_def t2(4) t2(11) t1(1) t1(3) t1(11))
qed

text \<open>C3 as stated fails when the layout changes between two calls: on the example board the
  remaining buffer is 1000 at a scroll event at 8000; the pane then widens from 1000 to 1600;
  at the next scroll event, at 7950, the remaining buffer is 450, yet \<^verbatim>\<open>onReachEnd\<close> is not
  called, because the previous scroll-left 8000 is tested against the new widths.\<close>

theorem reachEnd_on_crossing_counterexample:
  "480 < remaining near_end 0 8000 \<and>
   remaining (feed example_viewport 0 0 (NativeScroll, 7950) widened) 0 7950 \<le> 480 \<and>
   OnReachEnd \<notin> set (new_calls widened (feed example_viewport 0 0 (NativeScroll, 7950) widened))"
proof -
  have n: "remaining near_end 0 x = 9000 - x" "prevScrollLeftRef near_end = 8000"
    "hasReachedEndRef near_end = False" for x
    by (simp_all add: near_end_def native_track example_world_fields)
  have w: "remaining widened 0 x = 8400 - x" "prevScrollLeftRef widened = 8000"
    "hasReachedEndRef widened = False" "scrollingLeftRef widened = scrollingLeftRef near_end" for x
    using n(1)[of x] n(2,3) by (simp_all add: widened_def resizes_def remaining_def)
  show ?thesis
    by (simp add: new_calls_def native_track n w)
qed

text \<open>C3 (amended) at the example board: content width 10000 and visible width 1000; scroll
  events at 8600, 8600, 8000, 8600 call \<^verbatim>\<open>onReachEnd\<close> at the first and the last only; and
  with a drag in progress, a scroll event at 8000 followed by a pointer-move to 8600 crosses
  the threshold and fires.\<close>

theorem reachEnd_on_crossing_witness:
  "pointer_on grabbed_at_edge 0 0 \<and>
   OnReachEnd \<in> set (new_calls (feed example_viewport 0 0 (NativeScroll, 8000) grabbed_at_edge)
                          (feed example_viewport 0 0 (PointerDrag, 8600)
                             (feed example_viewport 0 0 (NativeScroll, 8000) grabbed_at_edge))) \<and>
   calls (run example_viewport 0 0
            [Position NativeScroll 8600, Position NativeScroll 8600, Position NativeScroll 8000,
             Position NativeScroll 8600] example_world) =
     [OnReachEnd, OnScrollLeft 8000 8600 600 0 (NativeEvent 0), OnReachEnd]"
proof -
  let ?w1 = "feed example_viewport 0 0 (NativeScroll, 8000) grabbed_at_edge"
  let ?w2 = "feed example_viewport 0 0 (PointerDrag, 8600) ?w1"
  have p: "pointer_on grabbed_at_edge 0 0" by (rule grabbed_at_edge_fields)
  then have p1: "pointer_on ?w1 0 0" by (simp only: pointer_on_feed)
  have r1: "480 < remaining ?w1 0 8000"
    by (simp add: native_track grabbed_at_edge_fields)
  have "remaining ?w2 0 8600 = remaining ?w1 0 8600"
    by (rule feed_track(11)) (use p1 in simp)
  then have r2: "remaining ?w2 0 8600 \<le> 480"
    by (simp add: native_track grabbed_at_edge_fields)
  have "OnReachEnd \<in> set (new_calls ?w1 ?w2)"
    using reachEnd_on_crossing[of NativeScroll PointerDrag grabbed_at_edge 0 0 example_viewport
            8000 8600] p r1 r2 by simp
  moreover have "calls (run example_viewport 0 0
            [Position NativeScroll 8600, Position NativeScroll 8600, Position NativeScroll 8000,
             Position NativeScroll 8600] example_world) =
     [OnReachEnd, OnScrollLeft 8000 8600 600 0 (NativeEvent 0), OnReachEnd]"
    by (simp add: native_track example_world_fields)
  ultimately show ?thesis using p by simp
qed

section \<open>The stop timer\<close>

text \<open>
  C4 (amended).  When the 150 ms stop timer set by a leftward update fires without having
  been canceled, the engine calls \<^verbatim>\<open>onScrollLeft\<close> with \<^verbatim>\<open>scrollDelta\<close> 0 and the positions of
  that last leftward update, then \<^verbatim>\<open>onStopScrollingLeft\<close>, and clears \<^verbatim>\<open>wasScrollingLeftRef\<close>.
  It leaves \<^verbatim>\<open>scrollingLeftRef\<close> as it was: when that flag is set, a subsequent leftward update
  under the left threshold, with no rightward or stationary update in between, does not call
  \<^verbatim>\<open>onReachStart\<close> again.  Only a rightward or stationary update re-arms \<^verbatim>\<open>onReachStart\<close>:
  in any state the timer callback, pointer-up and pointer-cancel, pointer-down, the row
  list's scroll handler, an animation frame and \<^verbatim>\<open>scrollToTask\<close> leave \<^verbatim>\<open>scrollingLeftRef\<close>
  unchanged; a position update made while the flag is set never calls \<^verbatim>\<open>onReachStart\<close> and,
  when leftward, keeps the flag set; and once the timer has fired, a rightward or stationary
  update clears the flag and the leftward update under the threshold that follows it calls
  \<^verbatim>\<open>onReachStart\<close> exactly once.
\<close>

theorem stop_timer_fires:
  assumes "s = PointerDrag \<longrightarrow> pointer_on w i sc"
    and "timers_ok w"
    and "v < prevScrollLeftRef w"
  shows "scrollLeftTimeoutRef (feed vp sc i (s, v) w) = Some (nextTimer w) \<and>
         new_calls (feed vp sc i (s, v) w) (fireTimer (nextTimer w) (feed vp sc i (s, v) w)) =
           [OnScrollLeft v (prevScrollLeftRef w) 0 sc (event_of s sc), OnStopScrollingLeft] \<and>
         \<not> wasScrollingLeftRef (fireTimer (nextTimer w) (feed vp sc i (s, v) w)) \<and>
         scrollingLeftRef (fireTimer (nextTimer w) (feed vp sc i (s, v) w)) =
           scrollingLeftRef (feed vp sc i (s, v) w) \<and>
         ((scrollingLeftRef w \<or> v < twelveMonthsPx vp) \<and> v' < v \<and>
          (s' = PointerDrag \<longrightarrow> pointer_on w i sc) \<longrightarrow>
            OnReachStart \<notin> set (new_calls (fireTimer (nextTimer w) (feed vp sc i (s, v) w))
               (feed vp sc i (s', v') (fireTimer (nextTimer w) (feed vp sc i (s, v) w))))) \<and>
         scrollingLeftRef (fireTimer h u) = scrollingLeftRef u \<and>
         scrollingLeftRef (handleEnd j u) = scrollingLeftRef u \<and>
         scrollingLeftRef (handlePointerDown pe u) = scrollingLeftRef u \<and>
         scrollingLeftRef (handleLeftScroll e u) = scrollingLeftRef u \<and>
         scrollingLeftRef (animationFrame u) = scrollingLeftRef u \<and>
         scrollingLeftRef (scrollToTask tz str tasks vp tid u) = scrollingLeftRef u \<and>
         (scrollingLeftRef u \<longrightarrow>
            OnReachStart \<notin> set (new_calls u (feed vp sc j (s'', x) u)) \<and>
            (x < prevScrollLeftRef u \<longrightarrow> scrollingLeftRef (feed vp sc j (s'', x) u))) \<and>
         (v \<le> xa \<and> xb < xa \<and> xb < twelveMonthsPx vp \<and>
          (sa = PointerDrag \<or> sb = PointerDrag \<longrightarrow> pointer_on w i sc) \<longrightarrow>
            \<not> scrollingLeftRef
                (feed vp sc i (sa, xa) (fireTimer (nextTimer w) (feed vp sc i (s, v) w))) \<and>
            count_list
              (new_calls
                 (feed vp sc i (sa, xa) (fireTimer (nextTimer w) (feed vp sc i (s, v) w)))
                 (feed vp sc i (sb, xb)
                    (feed vp sc i (sa, xa) (fireTimer (nextTimer w) (feed vp sc i (s, v) w)))))
              OnReachStart = 1)"
proof -
  let ?w1 = "feed vp sc i (s, v) w"
  let ?w2 = "fireTimer (nextTimer w) ?w1"
  note t1 = feed_track[OF assms(1), of vp v]
  have tm: "timers ?w1 = [(nextTimer w, event_of s sc)]"
    using assms(3) timers_ok_cleared[OF assms(2)] by (simp add: t1(9))
  then have pend: "map_of (timers ?w1) (nextTimer w) = Some (event_of s sc)" by simp
  have was: "wasScrollingLeftRef ?w1" using assms(3) by (simp add: t1(6))
  have last: "lastScrollStateRef ?w1 =
      Some \<lparr>scroller = sc, currentScrollLeft = v, prevScrollLeft = prevScrollLeftRef w\<rparr>"
    using assms(3) by (simp add: t1(7))
  note f = fireTimer_pending[OF pend was last]
  have a: "scrollLeftTimeoutRef ?w1 = Some (nextTimer w)"
    using assms(3) by (simp add: t1(8))
  have b: "new_calls ?w1 ?w2 =
      [OnScrollLeft v (prevScrollLeftRef w) 0 sc (event_of s sc), OnStopScrollingLeft]"
    by (simp add: new_calls_def f(1))
  have c: "\<not> wasScrollingLeftRef ?w2" by (rule f(2))
  have d: "scrollingLeftRef ?w2 = scrollingLeftRef ?w1" by (simp add: fireTimer_frame)
  have on2: "pointer_on ?w2 i sc = pointer_on w i sc"
    by (simp add: pointer_on_def fireTimer_frame feed_drags)
  have pv: "prevScrollLeftRef ?w2 = v" by (simp add: fireTimer_frame t1(1))
  have e: "OnReachStart \<notin> set (new_calls ?w2 (feed vp sc i (s', v') ?w2))"
    if h: "scrollingLeftRef w \<or> v < twelveMonthsPx vp" "v' < v"
          "s' = PointerDrag \<longrightarrow> pointer_on w i sc"
  proof -
    have sl: "scrollingLeftRef ?w2" using h(1) assms(3) by (simp add: d t1(5))
    show ?thesis by (rule flag_set_update(1)[OF sl])
  qed
  have k: "scrollingLeftRef (fireTimer h u) = scrollingLeftRef u \<and>
         scrollingLeftRef (handleEnd j u) = scrollingLeftRef u \<and>
         scrollingLeftRef (handlePointerDown pe u) = scrollingLeftRef u \<and>
         scrollingLeftRef (handleLeftScroll e u) = scrollingLeftRef u \<and>
         scrollingLeftRef (animationFrame u) = scrollingLeftRef u \<and>
         scrollingLeftRef (scrollToTask tz str tasks vp tid u) = scrollingLeftRef u"
    by (simp add: scrollingLeft_kept)
  have g: "scrollingLeftRef u \<longrightarrow>
            OnReachStart \<notin> set (new_calls u (feed vp sc j (s'', x) u)) \<and>
            (x < prevScrollLeftRef u \<longrightarrow> scrollingLeftRef (feed vp sc j (s'', x) u))"
    by (simp add: flag_set_update)
  have r: "\<not> scrollingLeftRef (feed vp sc i (sa, xa) ?w2) \<and>
           count_list (new_calls (feed vp sc i (sa, xa) ?w2)
                         (feed vp sc i (sb, xb) (feed vp sc i (sa, xa) ?w2))) OnReachStart = 1"
    if h: "v \<le> xa" "xb < xa" "xb < twelveMonthsPx vp"
          "sa = PointerDrag \<or> sb = PointerDrag \<longrightarrow> pointer_on w i sc"
  proof -
    let ?w3 = "feed vp sc i (sa, xa) ?w2"
    have ok1: "sa = PointerDrag \<longrightarrow> pointer_on ?w2 i sc" using h(4) on2 by simp
    note t3 = feed_track[OF ok1, of vp xa]
    have clr: "\<not> scrollingLeftRef ?w3" using h(1) by (simp add: t3(5) pv)
    have p3: "prevScrollLeftRef ?w3 = xa" by (rule t3(1))
    have "pointer_on ?w3 i sc = pointer_on w i sc" using on2 by (simp add: pointer_on_feed)
    then have ok2: "sb = PointerDrag \<longrightarrow> pointer_on ?w3 i sc" using h(4) by simp
    have "count_list (new_calls ?w3 (feed vp sc i (sb, xb) ?w3)) OnReachStart = 1"
      using clr h(2,3) by (simp add: new_calls_def feed_track(4)[OF ok2] p3)
    then show ?thesis using clr by simp
  qed
  show ?thesis using a b c d e k g r by blast
qed

text \<open>C4 as stated fails on the example board: after the scroll events at 1000 and 900 the
  timer fires and the stop pair is emitted, but \<^verbatim>\<open>scrollingLeftRef\<close> stays set, and the next
  leftward scroll event, at 800 and under the threshold 5760, calls no \<^verbatim>\<open>onReachStart\<close>.\<close>

theorem stop_timer_fires_counterexample:
  "OnStopScrollingLeft \<in> set (new_calls scrolled_left (fireTimer 1 scrolled_left)) \<and>
   scrollingLeftRef (fireTimer 1 scrolled_left) \<and>
   800 < prevScrollLeftRef (fireTimer 1 scrolled_left) \<and>
   800 < twelveMonthsPx example_viewport \<and>
   OnReachStart \<notin> set (new_calls (fireTimer 1 scrolled_left)
      (feed example_viewport 0 0 (NativeScroll, 800) (fireTimer 1 scrolled_left)))"
proof -
  have p: "map_of (timers scrolled_left) 1 = Some (NativeEvent 0)"
    by (simp add: scrolled_left_fields)
  note f = fireTimer_pending[OF p scrolled_left_fields(6) scrolled_left_fields(7)]
  show ?thesis
    by (simp add: new_calls_def f fireTimer_frame native_track scrolled_left_fields
          example_world_fields del: One_nat_def)
qed

text \<open>C4 (amended) at the example board: the leftward scroll event at 900 sets timer 1, which
  then fires; a scroll event at 800 then calls no \<^verbatim>\<open>onReachStart\<close>, whereas scroll events at
  950 and then 850 call it once.  The flag also survives the pointer-up of a drag that panned
  left, and a pointer-down.\<close>

theorem stop_timer_fires_witness:
  "timers_ok scrolled_to_1000 \<and> 900 < prevScrollLeftRef scrolled_to_1000 \<and>
   new_calls (feed example_viewport 0 0 (NativeScroll, 900) scrolled_to_1000)
     (fireTimer 1 (feed example_viewport 0 0 (NativeScroll, 900) scrolled_to_1000)) =
     [OnScrollLeft 900 1000 0 0 (NativeEvent 0), OnStopScrollingLeft] \<and>
   scrollingLeftRef (fireTimer 1 (feed example_viewport 0 0 (NativeScroll, 900) scrolled_to_1000)) \<and>
   OnReachStart \<notin> set (new_calls
      (fireTimer 1 (feed example_viewport 0 0 (NativeScroll, 900) scrolled_to_1000))
      (feed example_viewport 0 0 (NativeScroll, 800)
         (fireTimer 1 (feed example_viewport 0 0 (NativeScroll, 900) scrolled_to_1000)))) \<and>
   scrollingLeftRef (handleEnd 0 dragged_left) \<and>
   scrollingLeftRef (handlePointerDown pointer_down scrolled_left) \<and>
   \<not> scrollingLeftRef
       (feed example_viewport 0 0 (NativeScroll, 950)
          (fireTimer 1 (feed example_viewport 0 0 (NativeScroll, 900) scrolled_to_1000))) \<and>
   count_list
     (new_calls
        (feed example_viewport 0 0 (NativeScroll, 950)
           (fireTimer 1 (feed example_viewport 0 0 (NativeScroll, 900) scrolled_to_1000)))
        (feed example_viewport 0 0 (NativeScroll, 850)
           (feed example_viewport 0 0 (NativeScroll, 950)
              (fireTimer 1 (feed example_viewport 0 0 (NativeScroll, 900) scrolled_to_1000)))))
     OnReachStart = 1"
proof -
  have more: "timers scrolled_to_1000 = []" "scrollLeftTimeoutRef scrolled_to_1000 = None"
    "nextTimer scrolled_to_1000 = 1"
    by (simp_all add: scrolled_to_1000_def native_track example_world_fields)
  have ok: "timers_ok scrolled_to_1000" by (simp add: timers_ok_def more)
  have lt: "900 < prevScrollLeftRef scrolled_to_1000" by (simp add: scrolled_to_1000_fields)
  have sl: "scrollingLeftRef (feed example_viewport 0 0 (NativeScroll, 900) scrolled_to_1000)"
    by (simp add: native_track scrolled_to_1000_fields example_world_fields)
  have sd: "scrollingLeftRef dragged_left"
    by (simp add: dragged_left_eq pointer_track[OF grabbed_fields(3)] grabbed_fields
          example_world_fields del: One_nat_def)
  note th = stop_timer_fires[where s = NativeScroll and w = scrolled_to_1000 and i = 0
      and sc = 0 and v = 900 and vp = example_viewport and v' = 800 and s' = NativeScroll
      and xa = 950 and xb = 850 and sa = NativeScroll and sb = NativeScroll and j = 0
      and pe = pointer_down and h = 1 and e = "NativeEvent 1" and tz = utc
      and str = "\<lambda>s. s" and tasks = example_tasks and tid = "''r-1''"
      and s'' = NativeScroll and x = 800, OF _ ok lt]
  show ?thesis
    using th[where u = dragged_left] th[where u = scrolled_left] ok lt sl sd
      scrolled_left_fields(5)
    by (simp add: more scrolled_to_1000_fields example_world_fields)
qed

section \<open>End of a drag\<close>

text \<open>
  C6 (amended).  On pointer-up or pointer-cancel of the drag in progress while a
  scrolling-left episode is mid-flight, the engine at once calls \<^verbatim>\<open>onScrollLeft\<close> with
  \<^verbatim>\<open>scrollDelta\<close> 0, the last recorded positions and a synthesized event, then
  \<^verbatim>\<open>onStopScrollingLeft\<close>; it restores the prior cursor, stops panning and removes all its
  listeners from \<^verbatim>\<open>window\<close>, so that no later pointer event reaches it; pointer-up and
  pointer-cancel lead to the same state.  The pending stop timer is not canceled: it stays
  pending with \<^verbatim>\<open>scrollLeftTimeoutRef\<close> unchanged, and when it fires its callback emits
  nothing, so the stop pair is emitted exactly once.
\<close>

theorem pointer_end_forces_stop:
  assumes "drags w i = Some d"
    and "windowListeners w = drag_listeners i"
    and "wasScrollingLeftRef w"
    and "lastScrollStateRef w = Some l"
    and "ty = ''pointerup'' \<or> ty = ''pointercancel''"
  shows "new_calls w (dispatchWindow vp ty x w) =
           [OnScrollLeft (currentScrollLeft l) (prevScrollLeft l) 0 (scroller l)
              (SyntheticEvent (scroller l)), OnStopScrollingLeft] \<and>
         cursor (dom (dispatchWindow vp ty x w) (drag_el d)) = prevCursor d \<and>
         \<not> panning_drag (dispatchWindow vp ty x w) i \<and>
         windowListeners (dispatchWindow vp ty x w) = [] \<and>
         dispatchWindow vp ty' x' (dispatchWindow vp ty x w) = dispatchWindow vp ty x w \<and>
         timers (dispatchWindow vp ty x w) = timers w \<and>
         scrollLeftTimeoutRef (dispatchWindow vp ty x w) = scrollLeftTimeoutRef w \<and>
         new_calls (dispatchWindow vp ty x w) (fireTimer h (dispatchWindow vp ty x w)) = [] \<and>
         dispatchWindow vp ''pointerup'' x w = dispatchWindow vp ''pointercancel'' x w"
proof -
  have eq: "dispatchWindow vp ty x w = handleEnd i w"
    using assms(5) dispatch_single(2,3)[OF assms(2)] by auto
  note f = handleEnd_fields[OF assms(1)]
  have a: "new_calls w (handleEnd i w) =
           [OnScrollLeft (currentScrollLeft l) (prevScrollLeft l) 0 (scroller l)
              (SyntheticEvent (scroller l)), OnStopScrollingLeft]"
    using assms(3,4) by (simp add: new_calls_def f(1))
  have b: "cursor (dom (handleEnd i w) (drag_el d)) = prevCursor d" by (rule f(6))
  have c: "\<not> panning_drag (handleEnd i w) i" by (simp add: panning_drag_def f(5))
  have d: "windowListeners (handleEnd i w) = []"
    by (simp add: f(7) assms(2) drag_listeners_def)
  then have e: "dispatchWindow vp ty' x' (handleEnd i w) = handleEnd i w"
    by (simp add: dispatchWindow_def)
  have g: "\<not> wasScrollingLeftRef (handleEnd i w)" using assms(4) by (simp add: f(2))
  have h: "new_calls (handleEnd i w) (fireTimer h (handleEnd i w)) = []"
    by (simp add: new_calls_def fireTimer_idle[OF g])
  have k: "dispatchWindow vp ''pointerup'' x w = dispatchWindow vp ''pointercancel'' x w"
    by (simp add: dispatch_single(2,3)[OF assms(2)])
  show ?thesis
    unfolding eq using a b c d e h k f(3,4) by simp
qed

text \<open>C6 as stated fails on the example board: with the episode mid-flight and timer 1
  pending, pointer-up leaves that timer pending and \<^verbatim>\<open>scrollLeftTimeoutRef\<close> set.\<close>

theorem pointer_end_forces_stop_counterexample:
  "wasScrollingLeftRef dragged_left \<and>
   timers dragged_left = [(1, SyntheticEvent 0)] \<and>
   timers (dispatchWindow example_viewport ''pointerup'' 200 dragged_left) =
     [(1, SyntheticEvent 0)] \<and>
   scrollLeftTimeoutRef (dispatchWindow example_viewport ''pointerup'' 200 dragged_left) = Some 1"
  by (simp add: dispatch_single(2)[OF dragged_left_fields(2)]
        handleEnd_fields[OF dragged_left_fields(1)] dragged_left_fields del: One_nat_def)

text \<open>C6 (amended) at the example board, for pointer-cancel.\<close>

theorem pointer_end_forces_stop_witness:
  "drags dragged_left 0 = Some \<lparr> startX = 100, startScrollLeft = 1000, panning = True,
                             drag_scroller = 0, drag_el = 2, prevCursor = [] \<rparr> \<and>
   windowListeners dragged_left = drag_listeners 0 \<and>
   wasScrollingLeftRef dragged_left \<and>
   lastScrollStateRef dragged_left =
     Some \<lparr>scroller = 0, currentScrollLeft = 900, prevScrollLeft = 1000\<rparr> \<and>
   new_calls dragged_left (dispatchWindow example_viewport ''pointercancel'' 200 dragged_left) =
     [OnScrollLeft 900 1000 0 0 (SyntheticEvent 0), OnStopScrollingLeft] \<and>
   cursor (dom (dispatchWindow example_viewport ''pointercancel'' 200 dragged_left) 2) = [] \<and>
   windowListeners (dispatchWindow example_viewport ''pointercancel'' 200 dragged_left) = [] \<and>
   new_calls (dispatchWindow example_viewport ''pointercancel'' 200 dragged_left)
     (fireTimer 1 (dispatchWindow example_viewport ''pointercancel'' 200 dragged_left)) = []"
  using pointer_end_forces_stop[OF dragged_left_fields(1) dragged_left_fields(2)
          dragged_left_fields(3) dragged_left_fields(4), of "''pointercancel''" example_viewport
          200 "''pointermove''" 0 1]
    dragged_left_fields(1-4)
  by simp

section \<open>Pointer drag and native scroll agree\<close>

text \<open>
  C2.  From a state in which a drag is in progress on the chart scroller, feeding the same
  sequence of absolute scroll-left values (with the stop timer firing at the same points)
  through \<^verbatim>\<open>handleRightScroll\<close> and through the pointer-move handler of \<^verbatim>\<open>handlePointerDown\<close>
  produces the same sequence of \<^verbatim>\<open>onReachStart\<close>, \<^verbatim>\<open>onReachEnd\<close>, \<^verbatim>\<open>onScrollLeft\<close> and
  \<^verbatim>\<open>onStopScrollingLeft\<close> calls with the same \<^verbatim>\<open>currentScrollLeft\<close>, \<^verbatim>\<open>prevScrollLeft\<close>,
  \<^verbatim>\<open>scrollDelta\<close> and \<^verbatim>\<open>scroller\<close>; only the event payload differs.
\<close>

theorem pointer_native_equivalence:
  assumes "pointer_on w i sc"
  shows "map args_of (calls (run vp sc i (map (through NativeScroll) xs) w)) =
         map args_of (calls (run vp sc i (map (through PointerDrag) xs) w))"
proof -
  have "same_tracking sc w w" by (simp add: same_tracking_def)
  then have "same_tracking sc (run vp sc i (map (through NativeScroll) xs) w)
               (run vp sc i (map (through PointerDrag) xs) w)"
    using assms by (rule same_tracking_run)
  then show ?thesis by (simp add: same_tracking_def)
qed

text \<open>C2 at the example board with the drag started at 1000: the values 900 and 800 with
  timer 1 firing in between give the same five calls on both paths.\<close>

theorem pointer_native_equivalence_witness:
  "pointer_on grabbed 0 0 \<and>
   map args_of (calls (run example_viewport 0 0
      (map (through NativeScroll) [Position NativeScroll 900, TimerFires 1, Position NativeScroll 800])
      grabbed)) =
   [ScrollLeftArgs 900 1000 100 0, ReachStartCall, ScrollLeftArgs 900 1000 0 0,
    StopScrollingLeftCall, ScrollLeftArgs 800 900 100 0] \<and>
   map args_of (calls (run example_viewport 0 0
      (map (through PointerDrag) [Position NativeScroll 900, TimerFires 1, Position NativeScroll 800])
      grabbed)) =
   [ScrollLeftArgs 900 1000 100 0, ReachStartCall, ScrollLeftArgs 900 1000 0 0,
    StopScrollingLeftCall, ScrollLeftArgs 800 900 100 0]"
proof -
  let ?xs = "[Position NativeScroll 900, TimerFires 1, Position NativeScroll 800]"
  have n: "map args_of (calls (run example_viewport 0 0 (map (through NativeScroll) ?xs) grabbed)) =
     [ScrollLeftArgs 900 1000 100 0, ReachStartCall, ScrollLeftArgs 900 1000 0 0,
      StopScrollingLeftCall, ScrollLeftArgs 800 900 100 0]"
    by (simp add: native_track fireTimer_track fireTimer_frame remaining_fireTimer
          grabbed_fields example_world_fields del: One_nat_def)
  show ?thesis
    using pointer_native_equivalence[OF grabbed_fields(3), of example_viewport ?xs] n
      grabbed_fields(3)
    by (simp del: One_nat_def)
qed

section \<open>Vertical mirroring\<close>

text \<open>
  C5.  With both panes mounted, the guard clear and no scroll event pending, let the user
  scroll one pane vertically so that its offset changes, and let the harness deliver every
  resulting scroll event to the handler of its pane before the next animation frame.  Then
  the delivery ends (two units of fuel suffice, so there is no ping-pong), exactly one
  \<^verbatim>\<open>scrollTop\<close> write is made, onto the other pane with the scrolled pane's offset, the guard is
  set afterwards and the next animation-frame callback clears it.  Moreover, while the guard
  is set \<^verbatim>\<open>syncVerticalScroll\<close> is a no-op, and no handler of the hook clears the guard.
\<close>

theorem vertical_mirror_acyclic:
  assumes "scrollerRef w = Some r" and "leftScrollerRef w = Some l" and "l \<noteq> r"
    and "\<not> syncingRef w" and "scrollEvents w = []"
    and "(t = l \<and> other = r) \<or> (t = r \<and> other = l)"
    and "clampScroll v (scrollHeight (dom w t) - clientHeight (dom w t)) \<noteq> scrollTop (dom w t)"
  shows "(\<exists>w'. drainScrollEvents (Suc (Suc n)) vp (userScrollTop t v w) = Some w' \<and>
               new_writes w w' =
                 [SetScrollTop other
                    (clampScroll v (scrollHeight (dom w t) - clientHeight (dom w t)))] \<and>
               syncingRef w' \<and> scrollEvents w' = [] \<and> \<not> syncingRef (animationFrame w')) \<and>
         (syncingRef u \<longrightarrow>
            syncVerticalScroll a b u = u \<and>
            syncingRef (handleLeftScroll e u) \<and> syncingRef (handleRightScroll vp e u) \<and>
            syncingRef (fireTimer h u) \<and> syncingRef (handleMove vp i x u) \<and>
            syncingRef (handleEnd i u) \<and> syncingRef (handlePointerDown pe u))"
proof -
  let ?v = "clampScroll v (scrollHeight (dom w t) - clientHeight (dom w t))"
  let ?u0 = "w\<lparr>dom := (dom w)(t := (dom w t)\<lparr>scrollTop := ?v\<rparr>)\<rparr>"
  let ?u1 = "dispatchScroll vp t ?u0"
  have w0: "userScrollTop t v w = ?u0\<lparr>scrollEvents := [t]\<rparr>"
    using assms(5,7) by (simp add: userScrollTop_def queueScrollEvent_def Let_def)
  have eq0: "?u0\<lparr>scrollEvents := []\<rparr> = ?u0"
    using assms(5) by (cases w) simp
  have drain: "drainScrollEvents (Suc (Suc n)) vp (userScrollTop t v w) =
               drainScrollEvents (Suc n) vp ?u1"
    unfolding w0 by (subst drainScrollEvents.simps(2)) (simp add: eq0 del: drainScrollEvents.simps)
  have u0: "\<not> syncingRef ?u0" "scrollEvents ?u0 = []" "writes ?u0 = writes w"
    "scrollTop (dom ?u0 t) = ?v" "rafCallbacks ?u0 = rafCallbacks w"
    using assms(4,5) by simp_all
  have u1: "syncingRef ?u1 \<and> writes ?u1 = writes w @ [SetScrollTop other ?v] \<and>
            length (scrollEvents ?u1) \<le> 1 \<and> rafCallbacks ?u1 = Suc (rafCallbacks w)"
  proof (cases "t = l")
    case True
    then have o: "other = r" using assms(3,6) by auto
    have "?u1 = syncVerticalScroll l r ?u0"
      using True assms(1,2) by (simp add: dispatchScroll_def handleLeftScroll_def)
    then show ?thesis
      using sync_open[OF u0(1), of l r] u0 True o by simp
  next
    case False
    then have tr: "t = r" and o: "other = l" using assms(6) by auto
    obtain X where X: "handleRightScroll vp (NativeEvent r) ?u0 =
          (case leftScrollerRef ?u0 of None \<Rightarrow> X
           | Some left \<Rightarrow> syncVerticalScroll (currentTarget (NativeEvent r)) left X)"
      "syncingRef X = syncingRef ?u0" "writes X = writes ?u0"
      "scrollEvents X = scrollEvents ?u0" "rafCallbacks X = rafCallbacks ?u0"
      "dom X = dom ?u0"
      using handleRightScroll_as_sync[of vp "NativeEvent r" ?u0] by blast
    have "?u1 = syncVerticalScroll r l X"
      using tr assms(1,2,3) X(1) by (simp add: dispatchScroll_def)
    moreover have "\<not> syncingRef X" using X(2) u0(1) by simp
    ultimately show ?thesis
      using sync_open[of X r l] X(3-6) u0 tr o by simp
  qed
  then have "length (scrollEvents ?u1) \<le> Suc n" by simp
  then obtain w' where w': "drainScrollEvents (Suc n) vp ?u1 = Some w'"
    "writes w' = writes ?u1" "syncingRef w'" "scrollEvents w' = []"
    "rafCallbacks w' = rafCallbacks ?u1"
    using drain_guarded[of ?u1 "Suc n" vp] u1 by blast
  have "new_writes w w' = [SetScrollTop other ?v]"
    using w'(2) u1 by (simp add: new_writes_def)
  moreover have "\<not> syncingRef (animationFrame w')"
    using w'(5) u1 by (simp add: animationFrame_def)
  ultimately have first: "\<exists>w'. drainScrollEvents (Suc (Suc n)) vp (userScrollTop t v w) = Some w' \<and>
               new_writes w w' = [SetScrollTop other ?v] \<and>
               syncingRef w' \<and> scrollEvents w' = [] \<and> \<not> syncingRef (animationFrame w')"
    using drain w'(1,3,4) by auto
  have second: "syncingRef u \<longrightarrow>
            syncVerticalScroll a b u = u \<and>
            syncingRef (handleLeftScroll e u) \<and> syncingRef (handleRightScroll vp e u) \<and>
            syncingRef (fireTimer h u) \<and> syncingRef (handleMove vp i x u) \<and>
            syncingRef (handleEnd i u) \<and> syncingRef (handlePointerDown pe u)"
    by (simp add: guard_kept sync_guarded)
  show ?thesis
    using first second by (rule conjI)
qed

text \<open>C5 at the example board: the user scrolls the row list (element 1) to 100; the one
  write sets the chart scroller's \<^verbatim>\<open>scrollTop\<close> to 100.\<close>

theorem vertical_mirror_acyclic_witness:
  "scrollerRef example_world = Some 0 \<and> leftScrollerRef example_world = Some 1 \<and>
   \<not> syncingRef example_world \<and> scrollEvents example_world = [] \<and>
   clampScroll 100 (scrollHeight (dom example_world 1) - clientHeight (dom example_world 1))
     \<noteq> scrollTop (dom example_world 1) \<and>
   map_option (new_writes example_world)
     (drainScrollEvents (Suc (Suc 0)) example_viewport (userScrollTop 1 100 example_world)) =
     Some [SetScrollTop 0 100] \<and>
   map_option syncingRef
     (drainScrollEvents (Suc (Suc 0)) example_viewport (userScrollTop 1 100 example_world)) =
     Some True"
proof -
  have c: "clampScroll 100 (scrollHeight (dom example_world 1) - clientHeight (dom example_world 1))
             = 100"
    by (simp add: clampScroll_def example_world_env)
  have h: "scrollerRef example_world = Some 0" "leftScrollerRef example_world = Some 1"
    "(1::nat) \<noteq> 0" "\<not> syncingRef example_world" "scrollEvents example_world = []"
    "((1::nat) = 1 \<and> (0::nat) = 0) \<or> ((1::nat) = 0 \<and> (0::nat) = 1)"
    "clampScroll 100 (scrollHeight (dom example_world 1) - clientHeight (dom example_world 1))
       \<noteq> scrollTop (dom example_world 1)"
    by (simp_all add: example_world_fields example_world_env clampScroll_def)
  obtain w' where
    "drainScrollEvents (Suc (Suc 0)) example_viewport (userScrollTop 1 100 example_world) = Some w'"
    "new_writes example_world w' = [SetScrollTop 0 100]" "syncingRef w'"
    using vertical_mirror_acyclic[where n = 0 and vp = example_viewport, OF h, THEN conjunct1,
            unfolded c]
    by blast
  then show ?thesis using h by (simp del: drainScrollEvents.simps)
qed

section \<open>Scrolling to a task\<close>

text \<open>
  C8.  When the task found for the id has a valid start date and a chart scroller is mounted,
  \<^verbatim>\<open>scrollToTask\<close> does nothing but request a scroll of the scroller to exactly
  \<open>max 0 days * pxPerDay - clientWidth / 2\<close>, and passes that value on unclamped.  Here
  \<open>pxPerDay\<close> is the viewport's scale, 16 when the viewport leaves it out; the start date is
  clamped into the viewport (to the viewport's start when it lies before it, otherwise to the
  viewport's end when it lies after it); and \<open>days\<close> is the number of whole calendar days, in
  the time zone of the runtime, from the viewport's start to the clamped start.  (When the
  viewport's start is itself an invalid date the difference is NaN, and so is the requested
  offset.)
\<close>

theorem scrollToTask_centering:
  assumes "find (\<lambda>t. str (task_id t) = taskId) tasks = Some task"
    and "scrollerRef w = Some sc"
    and "task_start task = Some (Date ms)"
  shows "scrollToTask tz str tasks viewport taskId w =
           w\<lparr>writes := writes w @
                [ScrollTo sc
                   (case vp_start viewport of
                      InvalidDate \<Rightarrow> None
                    | Date s \<Rightarrow>
                        (let clamped = (if ms < s then s
                                        else case vp_end viewport of
                                               InvalidDate \<Rightarrow> ms
                                             | Date e \<Rightarrow> if e < ms then e else ms);
                             days = (clamped + tz clamped) div 86400000 - (s + tz s) div 86400000
                         in Some (max 0 (real_of_int days) *
                                    (case pxPerDay viewport of None \<Rightarrow> 16 | Some p \<Rightarrow> p) -
                                  clientWidth (dom w sc) / 2)))]\<rparr>"
proof (cases "vp_start viewport")
  case InvalidDate
  then show ?thesis
    using assms by (simp add: scrollToTask_def Let_def clampDate_def split: date.splits)
next
  case (Date s)
  show ?thesis
  proof (cases "vp_end viewport")
    case InvalidDate
    then show ?thesis
      using assms Date
      by (simp add: scrollToTask_def Let_def clampDate_def pxPerDay_of_def calendarDay_def
            MILLISECONDS_IN_DAY_def)
  next
    case (Date e)
    then show ?thesis
      using assms \<open>vp_start viewport = Date s\<close>
      by (simp add: scrollToTask_def Let_def clampDate_def pxPerDay_of_def calendarDay_def
            MILLISECONDS_IN_DAY_def)
  qed
qed

text \<open>C8 on a pane 500 wide.  At 16 pixels per day in UTC, the task starting 10 days after the
  viewport's start gives \<open>10 * 16 - 250 = -90\<close>, also when the viewport leaves the scale out
  and also five hours behind UTC;
  the task starting before the viewport is clamped to its start and gives \<open>-250\<close>; the task
  starting after the viewport is clamped to its end, day 100, and gives \<open>1350\<close>.  Five hours
  behind UTC the viewport's start falls on the evening before, so that the task starting 10
  days and 6 hours after it is 11 calendar days later: \<open>11 * 16 - 250 = -74\<close>.\<close>

theorem scrollToTask_centering_witness:
  "find (\<lambda>t. task_id t = ''r-1'') example_tasks = Some example_task \<and>
   scrollerRef narrow_world = Some 0 \<and>
   task_start example_task = Some (Date 864000000) \<and>
   new_writes narrow_world
     (scrollToTask utc (\<lambda>s. s) example_tasks example_viewport ''r-1'' narrow_world) =
     [ScrollTo 0 (Some (- 90))] \<and>
   new_writes narrow_world
     (scrollToTask utc (\<lambda>s. s) example_tasks unscaled_viewport ''r-1'' narrow_world) =
     [ScrollTo 0 (Some (- 90))] \<and>
   new_writes narrow_world
     (scrollToTask five_hours_behind (\<lambda>s. s) example_tasks example_viewport ''r-1''
        narrow_world) =
     [ScrollTo 0 (Some (- 90))] \<and>
   new_writes narrow_world
     (scrollToTask utc (\<lambda>s. s) example_tasks example_viewport ''r-0'' narrow_world) =
     [ScrollTo 0 (Some (- 250))] \<and>
   new_writes narrow_world
     (scrollToTask utc (\<lambda>s. s) example_tasks example_viewport ''r-4'' narrow_world) =
     [ScrollTo 0 (Some 1350)] \<and>
   new_writes narrow_world
     (scrollToTask five_hours_behind (\<lambda>s. s) example_tasks example_viewport ''r-3''
        narrow_world) =
     [ScrollTo 0 (Some (- 74))]"
proof -
  have f: "find (\<lambda>t. task_id t = ''r-1'') example_tasks = Some example_task"
    "find (\<lambda>t. task_id t = ''r-0'') example_tasks = Some early_task"
    "find (\<lambda>t. task_id t = ''r-4'') example_tasks = Some late_task"
    "find (\<lambda>t. task_id t = ''r-3'') example_tasks = Some overnight_task"
    by (simp_all add: example_tasks_def undated_task_def example_task_def early_task_def
          late_task_def overnight_task_def)
  have s: "scrollerRef narrow_world = Some 0" by (simp add: narrow_world_def mounted_def)
  have t: "task_start example_task = Some (Date 864000000)"
    "task_start early_task = Some (Date (- 864000000))"
    "task_start late_task = Some (Date 9504000000)"
    "task_start overnight_task = Some (Date 885600000)"
    by (simp_all add: example_task_def early_task_def late_task_def overnight_task_def)
  have v: "vp_start example_viewport = Date 0" "vp_end example_viewport = Date 8640000000"
    "pxPerDay example_viewport = Some 16" "vp_start unscaled_viewport = Date 0"
    "vp_end unscaled_viewport = Date 8640000000" "pxPerDay unscaled_viewport = None"
    "clientWidth (dom narrow_world 0) = 500" "utc x = 0" "five_hours_behind x = - 18000000"
    for x
    by (simp_all add: example_viewport_def unscaled_viewport_def narrow_world_def mounted_def
          example_element_def utc_def five_hours_behind_def)
  show ?thesis
    using scrollToTask_centering[OF f(1) s t(1), of utc example_viewport]
      scrollToTask_centering[OF f(1) s t(1), of utc unscaled_viewport]
      scrollToTask_centering[OF f(1) s t(1), of five_hours_behind example_viewport]
      scrollToTask_centering[OF f(2) s t(2), of utc example_viewport]
      scrollToTask_centering[OF f(3) s t(3), of utc example_viewport]
      scrollToTask_centering[OF f(4) s t(4), of five_hours_behind example_viewport]
      f(1) s t(1)
    by (simp add: new_writes_def v)
qed

text \<open>
  C9.  \<^verbatim>\<open>scrollToTask\<close> leaves the whole state unchanged, requesting no scroll, when no task has
  the given id, when the task found has a null or invalid start date, or when no chart
  scroller is mounted.
\<close>

theorem scrollToTask_noop:
  assumes "find (\<lambda>t. str (task_id t) = taskId) tasks = None \<or>
           (\<exists>task. find (\<lambda>t. str (task_id t) = taskId) tasks = Some task \<and>
                   (task_start task = None \<or> task_start task = Some InvalidDate)) \<or>
           scrollerRef w = None"
  shows "scrollToTask tz str tasks viewport taskId w = w"
  using assms by (auto simp: scrollToTask_def Let_def split: option.splits)

text \<open>C9 for an unknown id, for the task with an invalid start date, and for an unmounted
  scroller.\<close>

theorem scrollToTask_noop_witness:
  "find (\<lambda>t. task_id t = ''r-9'') [undated_task, example_task] = None \<and>
   scrollToTask utc (\<lambda>s. s) [undated_task, example_task] example_viewport ''r-9'' narrow_world =
     narrow_world \<and>
   find (\<lambda>t. task_id t = ''r-2'') [undated_task, example_task] = Some undated_task \<and>
   task_start undated_task = Some InvalidDate \<and>
   scrollToTask utc (\<lambda>s. s) [undated_task, example_task] example_viewport ''r-2'' narrow_world =
     narrow_world \<and>
   scrollerRef (narrow_world\<lparr>scrollerRef := None\<rparr>) = None \<and>
   scrollToTask utc (\<lambda>s. s) [undated_task, example_task] example_viewport ''r-1''
     (narrow_world\<lparr>scrollerRef := None\<rparr>) = narrow_world\<lparr>scrollerRef := None\<rparr>"
proof -
  have a: "find (\<lambda>t. task_id t = ''r-9'') [undated_task, example_task] = None"
    by (simp add: undated_task_def example_task_def)
  have b: "find (\<lambda>t. task_id t = ''r-2'') [undated_task, example_task] = Some undated_task"
    "task_start undated_task = Some InvalidDate"
    by (simp_all add: undated_task_def example_task_def)
  have c: "scrollerRef (narrow_world\<lparr>scrollerRef := None\<rparr>) = None" by simp
  have "scrollToTask utc (\<lambda>s. s) [undated_task, example_task] example_viewport ''r-9''
     narrow_world = narrow_world"
    by (rule scrollToTask_noop) (use a in simp)
  moreover have "scrollToTask utc (\<lambda>s. s) [undated_task, example_task] example_viewport ''r-2''
     narrow_world = narrow_world"
    by (rule scrollToTask_noop) (use b in simp)
  moreover have "scrollToTask utc (\<lambda>s. s) [undated_task, example_task] example_viewport ''r-1''
     (narrow_world\<lparr>scrollerRef := None\<rparr>) = narrow_world\<lparr>scrollerRef := None\<rparr>"
    by (rule scrollToTask_noop) simp
  ultimately show ?thesis using a b c by simp
qed

section \<open>The value a pointer-move publishes\<close>

text \<open>
  C10.  A pointer-move of a drag in progress publishes as \<^verbatim>\<open>scrollLeft\<close> state, records as
  previous scroll-left and feeds to direction and right-edge detection the raw value
  \<open>startScrollLeft - (clientX - startX)\<close>, while the scroller's own \<^verbatim>\<open>scrollLeft\<close> holds that
  value clamped to the scrollable range; the native handler publishes the scroller's
  \<^verbatim>\<open>scrollLeft\<close> reading.  On the example board with the drag started at 1000, a pointer-move
  to \<^verbatim>\<open>clientX\<close> 1200 publishes a negative value and one to -9000 a value beyond the maximum
  offset 9000, while the scroller is at 0 and at 9000.
\<close>

theorem pointer_move_publishes_raw:
  assumes "drags w i = Some d" and "panning d"
  shows "state_scrollLeft (handleMove vp i x w) = startScrollLeft d - (x - startX d) \<and>
         prevScrollLeftRef (handleMove vp i x w) = startScrollLeft d - (x - startX d) \<and>
         wasScrollingLeftRef (handleMove vp i x w) =
           (startScrollLeft d - (x - startX d) < prevScrollLeftRef w) \<and>
         hasReachedEndRef (handleMove vp i x w) =
           (remaining w (drag_scroller d) (startScrollLeft d - (x - startX d)) \<le> 480 \<and>
            (hasReachedEndRef w \<or> 480 < remaining w (drag_scroller d) (prevScrollLeftRef w))) \<and>
         scrollLeft (dom (handleMove vp i x w) (drag_scroller d)) =
           clampScroll (startScrollLeft d - (x - startX d))
             (scrollWidth (dom w (drag_scroller d)) - clientWidth (dom w (drag_scroller d))) \<and>
         0 \<le> scrollLeft (dom (handleMove vp i x w) (drag_scroller d)) \<and>
         state_scrollLeft (handleRightScroll vp e w) = scrollLeft (dom w (currentTarget e)) \<and>
         state_scrollLeft (handleMove vp 0 1200 grabbed) < 0 \<and>
         scrollLeft (dom (handleMove vp 0 1200 grabbed) 0) = 0 \<and>
         state_scrollLeft (handleMove vp 0 (- 9000) grabbed) >
           scrollWidth (dom grabbed 0) - clientWidth (dom grabbed 0) \<and>
         scrollLeft (dom (handleMove vp 0 (- 9000) grabbed) 0) =
           scrollWidth (dom grabbed 0) - clientWidth (dom grabbed 0)"
proof -
  let ?raw = "startScrollLeft d - (x - startX d)"
  let ?m = "handleMove vp i x w"
  have po: "pointer_on w i (drag_scroller d)" using assms by (simp add: pointer_on_def)
  have eq: "?m = pointerScroll vp i ?raw w"
    by (rule handleMove_as_pointerScroll[OF assms(1)])
  note t = pointer_track[OF po, of vp ?raw]
  have c1: "state_scrollLeft ?m = ?raw" unfolding eq by (rule t(2))
  have c2: "prevScrollLeftRef ?m = ?raw" unfolding eq by (rule t(1))
  have c3: "wasScrollingLeftRef ?m = (?raw < prevScrollLeftRef w)" unfolding eq by (rule t(6))
  have c4: "hasReachedEndRef ?m =
           (remaining w (drag_scroller d) ?raw \<le> 480 \<and>
            (hasReachedEndRef w \<or> 480 < remaining w (drag_scroller d) (prevScrollLeftRef w)))"
    unfolding eq by (rule t(3))
  have c5: "scrollLeft (dom ?m (drag_scroller d)) =
           clampScroll ?raw
             (scrollWidth (dom w (drag_scroller d)) - clientWidth (dom w (drag_scroller d)))"
    by (rule handleMove_dom_scrollLeft[OF assms])
  have c6: "0 \<le> scrollLeft (dom ?m (drag_scroller d))"
    by (simp add: c5 clampScroll_def)
  have c7: "state_scrollLeft (handleRightScroll vp e w) = scrollLeft (dom w (currentTarget e))"
    by (rule handleRightScroll_published)
  have dims: "scrollWidth (dom grabbed 0) - clientWidth (dom grabbed 0) = 9000"
    using grabbed_fields(10)[of 0] by (simp add: remaining_def)
  have g: "panning \<lparr> startX = 100, startScrollLeft = 1000, panning = True,
                     drag_scroller = 0, drag_el = 2, prevCursor = [] \<rparr>" by simp
  have ge: "handleMove vp 0 y grabbed = pointerScroll vp 0 (1000 - (y - 100)) grabbed" for y
    using handleMove_as_pointerScroll[OF grabbed_fields(1), of vp y] by simp
  have gp: "state_scrollLeft (handleMove vp 0 y grabbed) = 1000 - (y - 100)" for y
    unfolding ge by (rule pointer_track(2)[OF grabbed_fields(3)])
  have gd: "scrollLeft (dom (handleMove vp 0 y grabbed) 0) = clampScroll (1000 - (y - 100)) 9000"
    for y
    using handleMove_dom_scrollLeft[OF grabbed_fields(1) g, of vp y] dims by simp
  have c8: "state_scrollLeft (handleMove vp 0 1200 grabbed) < 0"
    by (simp add: gp)
  have c9: "scrollLeft (dom (handleMove vp 0 1200 grabbed) 0) = 0"
    by (simp add: gd clampScroll_def)
  have c10: "state_scrollLeft (handleMove vp 0 (- 9000) grabbed) >
           scrollWidth (dom grabbed 0) - clientWidth (dom grabbed 0)"
    by (simp add: gp dims)
  have c11: "scrollLeft (dom (handleMove vp 0 (- 9000) grabbed) 0) =
           scrollWidth (dom grabbed 0) - clientWidth (dom grabbed 0)"
    by (simp add: gd dims clampScroll_def)
  show ?thesis
    using c1 c2 c3 c4 c5 c6 c7 c8 c9 c10 c11 by blast
qed

text \<open>C10 at the example board: the pointer-move to \<^verbatim>\<open>clientX\<close> 1200 publishes -100 while the
  scroller stays at 0.\<close>

theorem pointer_move_publishes_raw_witness:
  "drags grabbed 0 = Some \<lparr> startX = 100, startScrollLeft = 1000, panning = True,
                             drag_scroller = 0, drag_el = 2, prevCursor = [] \<rparr> \<and>
   state_scrollLeft (handleMove example_viewport 0 1200 grabbed) = - 100 \<and>
   prevScrollLeftRef (handleMove example_viewport 0 1200 grabbed) = - 100 \<and>
   wasScrollingLeftRef (handleMove example_viewport 0 1200 grabbed) \<and>
   scrollLeft (dom (handleMove example_viewport 0 1200 grabbed) 0) = 0"
proof -
  have g: "panning \<lparr> startX = 100, startScrollLeft = 1000, panning = True,
                     drag_scroller = 0, drag_el = 2, prevCursor = [] \<rparr>" by simp
  show ?thesis
    using pointer_move_publishes_raw[OF grabbed_fields(1) g, of example_viewport 1200
            "NativeEvent 0"] grabbed_fields(1,4)
    by simp
qed

end
